theory Spec2Isabelle
  imports Main "HOL-Library.Word"
begin

unbundle bit_operations_syntax

text \<open>
  A shallow embedding of the block-cipher core of the chat application: the twoFish-style
  Cipher A (key schedule, 16-byte Feistel engine), the macGuffin-style Cipher B (key
  schedule by self-encryption, 8-byte Feistel engine), and the mode and padding engine
  of the cipher context. Each definition follows the source function whose name it
  bears; the sections are named after the source files.
\<close>

section \<open>Values and errors\<close>

text \<open>
  A \<open>Uint8Array\<close> is a list of bytes, a \<open>Uint16Array\<close> a list of 16-bit words.
  A JavaScript number that is the result of a bitwise operator is an int32 and is
  modelled as a \<open>32 word\<close> (\<open>sint\<close> reads the number back); a number that is the
  result of \<open>+\<close> or \<open>%\<close> is an \<open>int\<close>, and \<open>word_of_int\<close> is the \<open>ToInt32\<close>
  conversion every bitwise operator applies to its operands.
\<close>

type_synonym byte = "8 word"
type_synonym u16 = "16 word"
type_synonym i32 = "32 word"

text \<open>Every \<open>throw\<close> of the source is one constructor; the comment names the throw site.\<close>

datatype error =
    InvalidKeyLength          \<comment> \<open>\<open>setMasterKey\<close>: key length not allowed\<close>
  | InvalidIvLength           \<comment> \<open>\<open>setIv\<close>: length differs from the constant\<close>
  | MissingIv                 \<comment> \<open>\<open>encrypt\<close>/\<open>decrypt\<close>: \<open>if (!this.iv) throw\<close>\<close>
  | RoundKeysNotSet           \<comment> \<open>\<open>encrypt\<close>/\<open>decrypt\<close>: \<open>!this.keyExpansion.roundKeys\<close>\<close>
  | EmptyData                 \<comment> \<open>\<open>encrypt\<close>: empty input\<close>
  | MisalignedCiphertext      \<comment> \<open>\<open>decrypt\<close>: empty or misaligned input; \<open>_removePadding\<close>: misaligned\<close>
  | UnsupportedMode           \<comment> \<open>\<open>default\<close> branch of the mode switch\<close>
  | PaddingValidationFailed   \<comment> \<open>every \<open>throw\<close> of \<open>_removePadding\<close> about the padding content\<close>
  | XorLengthMismatch         \<comment> \<open>\<open>xorBytes\<close>: operands of different length\<close>
  | NotImplemented            \<comment> \<open>a method of \<open>IBlockCipher\<close>/\<open>IKeyExpansion\<close>/\<open>CipherContextBase\<close> left abstract\<close>
  | SBoxesUndefined           \<comment> \<open>\<open>encryptBlock\<close>/\<open>decryptBlock\<close>: \<open>sBoxes === null\<close>\<close>
  | RoundKeysUndefined        \<comment> \<open>\<open>encryptBlock\<close>: \<open>roundKeys === null\<close>; \<open>decryptBlock\<close>: index of \<open>null\<close>\<close>
  | BadBlockLength            \<comment> \<open>\<open>decryptBlock\<close>: block is not 16 bytes\<close>
  | InvalidNumRounds          \<comment> \<open>constructor of an engine: \<open>numRounds <= 0\<close>\<close>
  | RangeError                \<comment> \<open>the host's RangeError (array length, \<open>DataView\<close> offset, \<open>set\<close>)\<close>
  | TypeError                 \<comment> \<open>the host's TypeError: an entry read of a missing S-box table\<close>

text \<open>
  Reading an array out of range gives \<open>undefined\<close>, and a bitwise operator reads
  \<open>undefined\<close> as 0. The three accessors below are used only under such an operator.
\<close>

definition byteAt :: "byte list \<Rightarrow> nat \<Rightarrow> i32" where
  "byteAt bs i = (if i < length bs then ucast (bs ! i) else 0)"

definition wordAt :: "i32 list \<Rightarrow> nat \<Rightarrow> i32" where
  "wordAt ws i = (if i < length ws then ws ! i else 0)"

definition u16At :: "u16 list \<Rightarrow> nat \<Rightarrow> i32" where
  "u16At ws i = (if i < length ws then ucast (ws ! i) else 0)"

section \<open>bits_operation.ts\<close>

definition xorBytes :: "byte list \<Rightarrow> byte list \<Rightarrow> error + byte list" where
  "xorBytes a b =
     (if length a \<noteq> length b then Inl XorLengthMismatch
      else Inr (map (\<lambda>(x, y). x XOR y) (zip a b)))"

definition pack4 :: "byte list \<Rightarrow> i32" where
  "pack4 bs = push_bit 24 (byteAt bs 0) OR push_bit 16 (byteAt bs 1)
              OR push_bit 8 (byteAt bs 2) OR byteAt bs 3"

function bytesToWords :: "byte list \<Rightarrow> i32 list" where
  "bytesToWords bytes =
     (if bytes = [] then [] else pack4 bytes # bytesToWords (drop 4 bytes))"
  by pat_completeness auto
termination
  by (relation "measure length") auto

declare bytesToWords.simps [simp del]

definition unpack4 :: "i32 \<Rightarrow> byte list" where
  "unpack4 word =
     [ucast (signed_drop_bit 24 word AND 0xFF), ucast (signed_drop_bit 16 word AND 0xFF),
      ucast (signed_drop_bit 8 word AND 0xFF), ucast (word AND 0xFF)]"

definition wordsToBytes :: "i32 list \<Rightarrow> byte list" where
  "wordsToBytes words = concat (map unpack4 words)"

text \<open>
  \<open>rot\<close>: \<open>n >>> 0\<close> keeps the 32 bits; a shift count is taken modulo 32 by the
  host; the result of \<open>|\<close> is an int32.
\<close>

definition rot :: "i32 \<Rightarrow> int \<Rightarrow> i32" where
  "rot n bits =
     (if bits > 0
      then push_bit (nat (bits mod 32)) n OR drop_bit (nat ((32 - bits) mod 32)) n
      else drop_bit (nat ((- bits) mod 32)) n OR push_bit (nat ((32 + bits) mod 32)) n)"

section \<open>Cipher A (twoFish): constants\<close>

definition BLOCK_SIZE_BYTES :: nat where "BLOCK_SIZE_BYTES = 16"
definition HALF_BLOCK_SIZE_BYTES :: nat where "HALF_BLOCK_SIZE_BYTES = BLOCK_SIZE_BYTES div 2"
definition NUM_ROUNDS :: nat where "NUM_ROUNDS = 16"
definition MASTER_KEY_SIZE_BYTES :: "nat list" where "MASTER_KEY_SIZE_BYTES = [16, 24, 32]"

record QTable =
  t0 :: "i32 list"
  t1 :: "i32 list"
  t2 :: "i32 list"
  t3 :: "i32 list"

definition Q0 :: QTable where
  "Q0 = \<lparr> t0 = [8, 1, 7, 13, 6, 15, 3, 2, 0, 11, 5, 9, 14, 12, 10, 4],
          t1 = [14, 12, 11, 8, 1, 2, 3, 5, 15, 4, 10, 6, 7, 0, 9, 13],
          t2 = [11, 10, 5, 14, 6, 13, 9, 0, 12, 8, 15, 3, 2, 4, 7, 1],
          t3 = [13, 7, 15, 4, 1, 2, 6, 14, 9, 11, 3, 0, 8, 5, 12, 10] \<rparr>"

definition Q1 :: QTable where
  "Q1 = \<lparr> t0 = [2, 8, 11, 13, 15, 7, 6, 14, 3, 1, 9, 4, 0, 10, 12, 5],
          t1 = [1, 14, 2, 11, 4, 12, 3, 7, 6, 13, 10, 5, 15, 9, 0, 8],
          t2 = [4, 12, 7, 5, 1, 6, 9, 10, 0, 14, 13, 8, 2, 11, 3, 15],
          t3 = [11, 9, 5, 1, 12, 3, 13, 14, 6, 4, 7, 15, 2, 0, 8, 10] \<rparr>"

definition MDS_MATRIX :: "i32 list list" where
  "MDS_MATRIX = [[1, 239, 91, 91], [91, 239, 239, 1], [239, 91, 1, 239], [239, 1, 239, 91]]"

definition RS_MATRIX :: "i32 list list" where
  "RS_MATRIX = [[1, 164, 85, 135, 90, 88, 219, 158],
                [164, 86, 130, 243, 30, 198, 104, 229],
                [2, 161, 252, 193, 71, 174, 61, 25],
                [164, 85, 135, 90, 88, 219, 158, 3]]"

definition RS_POLY :: i32 where "RS_POLY = 0x169"

section \<open>Cipher A: tools.ts\<close>

definition q :: "i32 \<Rightarrow> QTable \<Rightarrow> i32" where
  "q x qTable =
     (let a0 = signed_drop_bit 4 x AND 0xF;
          b0 = x AND 0xF;
          a1 = a0 XOR b0;
          b1 = a0 XOR ((push_bit 1 b0 OR signed_drop_bit 3 b0) AND 0xF) XOR ((8 * a0) AND 0xF);
          a2 = wordAt (t0 qTable) (unat a1);
          b2 = wordAt (t1 qTable) (unat b1);
          a3 = a2 XOR b2;
          b3 = a2 XOR ((push_bit 1 b2 OR signed_drop_bit 3 b2) AND 0xF) XOR ((8 * a2) AND 0xF);
          a4 = wordAt (t2 qTable) (unat a3);
          b4 = wordAt (t3 qTable) (unat b3)
      in push_bit 4 b4 OR a4)"

text \<open>
  \<open>multiplyGF\<close>: the \<open>while (b > 0)\<close> loop, with the accumulator as third argument.
  The comparison is the signed one of numbers, \<open>>>=\<close> the arithmetic shift.
\<close>

function multiplyGF_loop :: "i32 \<Rightarrow> i32 \<Rightarrow> i32 \<Rightarrow> i32" where
  "multiplyGF_loop a b result =
     (if 0 <s b
      then let result' = (if b AND 1 \<noteq> 0 then result XOR a else result);
               a' = push_bit 1 a;
               a'' = (if a' AND 0x100 \<noteq> 0 then a' XOR RS_POLY else a')
           in multiplyGF_loop a'' (signed_drop_bit 1 b) result'
      else result)"
  by pat_completeness auto
termination
proof (relation "measure (\<lambda>(a, b, r). nat (sint b))")
  show "wf (measure (\<lambda>(a, b, r). nat (sint b)))" by simp
next
  fix a b result :: i32 and x xa xb :: i32
  assume "0 <s b"
  then have pos: "0 < sint b" by (simp add: word_sless_alt)
  have "sint (signed_drop_bit 1 b) = sint b div 2"
    by (simp add: sint_signed_drop_bit_eq drop_bit_eq_div)
  with pos show "((xb, signed_drop_bit 1 b, x), a, b, result) \<in> measure (\<lambda>(a, b, r). nat (sint b))"
    by simp
qed

declare multiplyGF_loop.simps [simp del]

definition multiplyGF :: "i32 \<Rightarrow> i32 \<Rightarrow> i32" where
  "multiplyGF a b = multiplyGF_loop a b 0"

text \<open>
  The multiplication of the packed word \<open>y\<close> by the MDS matrix: the source writes
  these sixteen products out twice, at the end of \<open>h\<close> and of \<open>gFunction\<close>.
\<close>

definition mdsRow :: "nat \<Rightarrow> i32 \<Rightarrow> i32" where
  "mdsRow r y =
     multiplyGF (MDS_MATRIX ! r ! 0) (signed_drop_bit 24 y AND 0xFF) XOR
     multiplyGF (MDS_MATRIX ! r ! 1) (signed_drop_bit 16 y AND 0xFF) XOR
     multiplyGF (MDS_MATRIX ! r ! 2) (signed_drop_bit 8 y AND 0xFF) XOR
     multiplyGF (MDS_MATRIX ! r ! 3) (y AND 0xFF)"

definition mdsMultiply :: "i32 \<Rightarrow> i32" where
  "mdsMultiply y =
     push_bit 24 (mdsRow 0 y) OR push_bit 16 (mdsRow 1 y) OR push_bit 8 (mdsRow 2 y) OR mdsRow 3 y"

text \<open>
  \<open>h(x, lVector)\<close>. The argument \<open>x\<close> is read only through \<open>>>\<close> and \<open>&\<close>, so an
  \<open>undefined\<close> argument is the word 0; \<open>lVector[i]\<close> out of range likewise.
\<close>

definition h :: "i32 \<Rightarrow> i32 list \<Rightarrow> i32" where
  "h x lVector =
     (let k = length lVector;
          l = wordAt lVector;
          y0 = signed_drop_bit 24 x AND 0xFF;
          y1 = signed_drop_bit 16 x AND 0xFF;
          y2 = signed_drop_bit 8 x AND 0xFF;
          y3 = x AND 0xFF;
          (y0, y1, y2, y3) =
            (if k \<ge> 4
             then let y3' = q y3 Q1 XOR (signed_drop_bit 24 (l 3) AND 0xFF);
                      y2' = q y2 Q0 XOR (signed_drop_bit 16 (l 3) AND 0xFF);
                      y1' = q y1 Q1 XOR (signed_drop_bit 8 (l 3) AND 0xFF);
                      y0' = q y0 Q1 XOR (l 3 AND 0xFF)
                  in (y0', y1', y2', y3')
             else (y0, y1, y2, y3));
          (y0, y1, y2, y3) =
            (if k \<ge> 3
             then let y3' = q y3 Q0 XOR (signed_drop_bit 24 (l 2) AND 0xFF);
                      y2' = q y2 Q0 XOR (signed_drop_bit 16 (l 2) AND 0xFF);
                      y1' = q y1 Q1 XOR (signed_drop_bit 8 (l 2) AND 0xFF);
                      y0' = q y0 Q1 XOR (l 2 AND 0xFF)
                  in (y0', y1', y2', y3')
             else (y0, y1, y2, y3));
          z0 = q (q (q y0 Q0 XOR (signed_drop_bit 24 (l 1) AND 0xFF)) Q0
                  XOR (signed_drop_bit 24 (l 0) AND 0xFF)) Q1;
          z1 = q (q (q y1 Q1 XOR (signed_drop_bit 16 (l 1) AND 0xFF)) Q0
                  XOR (signed_drop_bit 16 (l 0) AND 0xFF)) Q0;
          z2 = q (q (q y2 Q0 XOR (signed_drop_bit 8 (l 1) AND 0xFF)) Q1
                  XOR (signed_drop_bit 8 (l 0) AND 0xFF)) Q1;
          z3 = q (q (q y3 Q1 XOR (l 1 AND 0xFF)) Q1 XOR (l 0 AND 0xFF)) Q0;
          y = push_bit 24 z0 OR push_bit 16 z1 OR push_bit 8 z2 OR z3
      in mdsMultiply y)"

text \<open>\<open>%\<close> of the host truncates towards zero: the remainder has the dividend's sign.\<close>

definition js_rem :: "int \<Rightarrow> int \<Rightarrow> int" where
  "js_rem a m = (if a < 0 then - ((- a) mod m) else a mod m)"

definition PHT :: "int \<Rightarrow> int \<Rightarrow> int \<times> int" where
  "PHT a b = (js_rem (a + b) (2 ^ 32), js_rem (a + 2 * b) (2 ^ 32))"

section \<open>Cipher A: KeyExpansion.ts\<close>

text \<open>
  The fields \<open>sBoxes_\<close> and \<open>roundKeys_\<close> of \<open>IKeyExpansion\<close> (\<open>null\<close> is
  \<open>None\<close>) and the vectors \<open>M\<close> and \<open>S\<close> of the twoFish subclass. Round keys are
  numbers as \<open>PHT\<close> returns them.
\<close>

record KeyExpansion =
  sBoxes :: "i32 list list option"
  roundKeys :: "int list option"
  vecM :: "i32 list"
  vecS :: "i32 list"

definition IKeyExpansion_new :: KeyExpansion where
  "IKeyExpansion_new = \<lparr> sBoxes = None, roundKeys = None, vecM = [], vecS = [] \<rparr>"

definition le32 :: "byte list \<Rightarrow> nat \<Rightarrow> i32" where
  "le32 masterKey n = byteAt masterKey n OR push_bit 8 (byteAt masterKey (n + 1))
       OR push_bit 16 (byteAt masterKey (n + 2)) OR push_bit 24 (byteAt masterKey (n + 3))"

definition rsRow :: "byte list \<Rightarrow> nat \<Rightarrow> i32" where
  "rsRow keyBytes row =
     foldl (\<lambda>sum col. sum XOR multiplyGF (RS_MATRIX ! row ! col) (byteAt keyBytes col)) 0 [0..<8]"

definition rsWord :: "byte list \<Rightarrow> nat \<Rightarrow> i32" where
  "rsWord masterKey i =
     (let keyBytes = take 8 (drop (8 * i) masterKey)
      in push_bit 24 (rsRow keyBytes 0) OR push_bit 16 (rsRow keyBytes 1)
         OR push_bit 8 (rsRow keyBytes 2) OR rsRow keyBytes 3)"

text \<open>
  Step 1 of the constructor. Iteration \<open>i\<close> writes \<open>M[2i]\<close>, \<open>M[2i+1]\<close> and
  \<open>S[k-1-i]\<close>, so \<open>M\<close> is the chunks in order and \<open>S\<close> the chunks reversed.
\<close>

definition makeM :: "byte list \<Rightarrow> i32 list" where
  "makeM masterKey =
     concat (map (\<lambda>i. [le32 masterKey (8 * i), le32 masterKey (8 * i + 4)])
                 [0..<length masterKey div 8])"

definition makeS :: "byte list \<Rightarrow> i32 list" where
  "makeS masterKey = rev (map (rsWord masterKey) [0..<length masterKey div 8])"

text \<open>
  \<open>generateRoundKeysInternal\<close>: the argument of \<open>h\<close> is the element \<open>M[2 * i]\<close>
  (\<open>undefined\<close>, read as 0, beyond the end of \<open>M\<close>), and \<open>h\<close> returns an int32.
\<close>

definition generateRoundKeysInternal :: "i32 list \<Rightarrow> int list" where
  "generateRoundKeysInternal M =
     concat (map (\<lambda>i. let temp = PHT (sint (h (wordAt M (2 * i)) M))
                                     (sint (h (wordAt M (2 * i + 1)) M))
                        in [fst temp, snd temp])
                 [0..<20])"

definition generateSBoxesInternal :: "i32 list \<Rightarrow> i32 list list" where
  "generateSBoxesInternal S = map (\<lambda>i. map (\<lambda>j. h (of_nat j) S) [0..<256]) [0..<4]"

text \<open>
  The constructor. \<open>new Array(2 * k)\<close> or \<open>new Array(k)\<close> raises a RangeError when
  the key length is not a multiple of 8.
\<close>

definition KeyExpansion_new :: "byte list \<Rightarrow> error + KeyExpansion" where
  "KeyExpansion_new masterKey =
     (if length masterKey mod 8 \<noteq> 0 then Inl RangeError
      else let M = makeM masterKey; S = makeS masterKey
           in Inr \<lparr> sBoxes = Some (generateSBoxesInternal S),
                    roundKeys = Some (generateRoundKeysInternal M),
                    vecM = M, vecS = S \<rparr>)"

section \<open>Cipher A: FeistelBlockCipher.ts\<close>

text \<open>The fields \<open>keyExpansion_\<close> and \<open>numRounds_\<close> of the class.\<close>

record FeistelBlockCipher =
  cipherKeyExpansion :: KeyExpansion
  cipherNumRounds :: int

definition FeistelBlockCipher_new :: "KeyExpansion \<Rightarrow> int \<Rightarrow> error + FeistelBlockCipher" where
  "FeistelBlockCipher_new ke numRounds =
     (if numRounds \<le> 0 then Inl InvalidNumRounds
      else Inr \<lparr> cipherKeyExpansion = ke, cipherNumRounds = numRounds \<rparr>)"

text \<open>The static method of the class: \<open>HALF_BLOCK_SIZE_BYTES * 2\<close>.\<close>

definition FeistelBlockCipher_getBlockSizeBytes :: nat where
  "FeistelBlockCipher_getBlockSizeBytes = HALF_BLOCK_SIZE_BYTES * 2"

text \<open>
  A number read from an array of numbers, \<open>None\<close> for \<open>undefined\<close>; the sum of a
  number and such a read (\<open>NaN\<close>, again \<open>None\<close>, when the read is \<open>undefined\<close>); and
  \<open>ToInt32\<close>, which maps \<open>undefined\<close> and \<open>NaN\<close> to 0.
\<close>

definition numAt :: "int list \<Rightarrow> nat \<Rightarrow> int option" where
  "numAt ks i = (if i < length ks then Some (ks ! i) else None)"

definition jsAdd :: "int \<Rightarrow> int option \<Rightarrow> int option" where
  "jsAdd a b = (case b of None \<Rightarrow> None | Some n \<Rightarrow> Some (a + n))"

definition toInt32 :: "int option \<Rightarrow> i32" where
  "toInt32 v = (case v of None \<Rightarrow> 0 | Some n \<Rightarrow> word_of_int n)"

text \<open>
  \<open>gFunction\<close>. It reads \<open>sBoxes[0]\<close> to \<open>sBoxes[3]\<close>: with fewer than four tables
  the read of an entry of \<open>undefined\<close> raises a TypeError, which \<open>encryptBlock\<close> and
  \<open>decryptBlock\<close> below raise before their loop, as the first round calls \<open>gFunction\<close>
  in any case. An entry missing from a table is \<open>undefined\<close>, read as 0; an entry is a
  whole word, shifted and OR-ed as it is.
\<close>

definition sBoxAt :: "i32 list list \<Rightarrow> nat \<Rightarrow> i32 \<Rightarrow> i32" where
  "sBoxAt sb i x = wordAt (sb ! i) (unat x)"

definition gFunction :: "i32 \<Rightarrow> i32 list list \<Rightarrow> i32" where
  "gFunction x sb =
     (let b0 = sBoxAt sb 0 (signed_drop_bit 24 x AND 0xFF);
          b1 = sBoxAt sb 1 (signed_drop_bit 16 x AND 0xFF);
          b2 = sBoxAt sb 2 (signed_drop_bit 8 x AND 0xFF);
          b3 = sBoxAt sb 3 (x AND 0xFF);
          y = push_bit 24 b0 OR push_bit 16 b1 OR push_bit 8 b2 OR b3
      in mdsMultiply y)"

type_synonym wstate = "i32 \<times> i32 \<times> i32 \<times> i32"

text \<open>One pass of the body of the \<open>for\<close> loop of \<open>encryptBlock\<close>, at round \<open>r\<close>.\<close>

definition encRound :: "i32 list list \<Rightarrow> int list \<Rightarrow> wstate \<Rightarrow> nat \<Rightarrow> wstate" where
  "encRound sb rk st r =
     (case st of (w0, w1, w2, w3) \<Rightarrow>
        let t0 = gFunction w0 sb;
            t1 = gFunction (rot w1 8) sb;
            f = PHT (sint t0) (sint t1);
            w2' = rot (w2 XOR toInt32 (jsAdd (fst f) (numAt rk (2 * r + 8)))) (- 1);
            w3' = rot w3 1 XOR toInt32 (jsAdd (snd f) (numAt rk (2 * r + 9)))
        in if r < NUM_ROUNDS - 1 then (w2', w3', w0, w1) else (w0, w1, w2', w3'))"

definition whiten :: "int list \<Rightarrow> nat \<Rightarrow> wstate \<Rightarrow> wstate" where
  "whiten round_keys off st =
     (case st of (w0, w1, w2, w3) \<Rightarrow>
        (w0 XOR toInt32 (numAt round_keys off), w1 XOR toInt32 (numAt round_keys (off + 1)),
         w2 XOR toInt32 (numAt round_keys (off + 2)), w3 XOR toInt32 (numAt round_keys (off + 3))))"

definition unpackBlock :: "byte list \<Rightarrow> wstate" where
  "unpackBlock blk =
     (let ws = bytesToWords blk in (wordAt ws 0, wordAt ws 1, wordAt ws 2, wordAt ws 3))"

definition packBlock :: "wstate \<Rightarrow> byte list" where
  "packBlock st = (case st of (w0, w1, w2, w3) \<Rightarrow> wordsToBytes [w0, w1, w2, w3])"

definition encryptBlock :: "FeistelBlockCipher \<Rightarrow> byte list \<Rightarrow> int list \<Rightarrow> error + byte list" where
  "encryptBlock cipher blk round_keys =
     (case sBoxes (cipherKeyExpansion cipher) of
        None \<Rightarrow> Inl SBoxesUndefined
      | Some sb \<Rightarrow>
     (case roundKeys (cipherKeyExpansion cipher) of
        None \<Rightarrow> Inl RoundKeysUndefined
      | Some rk \<Rightarrow>
          if length sb < 4 then Inl TypeError
          else Inr (packBlock (whiten round_keys 4
                      (foldl (encRound sb rk) (whiten round_keys 0 (unpackBlock blk))
                             [0..<NUM_ROUNDS])))))"

text \<open>One pass of the body of the \<open>for\<close> loop of \<open>decryptBlock\<close>; \<open>r\<close> runs downwards.\<close>

definition decRound :: "i32 list list \<Rightarrow> int list \<Rightarrow> wstate \<Rightarrow> nat \<Rightarrow> wstate" where
  "decRound sb rk st r =
     (case (if r < NUM_ROUNDS - 1 then (case st of (w0, w1, w2, w3) \<Rightarrow> (w2, w3, w0, w1)) else st)
      of (w0, w1, w2, w3) \<Rightarrow>
        let t0 = gFunction w0 sb;
            t1 = gFunction (rot w1 8) sb;
            f = PHT (sint t0) (sint t1);
            oldW2 = rot w2 1 XOR toInt32 (jsAdd (fst f) (numAt rk (2 * r + 8)));
            oldW3 = rot (w3 XOR toInt32 (jsAdd (snd f) (numAt rk (2 * r + 9)))) (- 1)
        in (w0, w1, oldW2, oldW3))"

definition decryptBlock :: "FeistelBlockCipher \<Rightarrow> byte list \<Rightarrow> int list \<Rightarrow> error + byte list" where
  "decryptBlock cipher blk round_keys =
     (case sBoxes (cipherKeyExpansion cipher) of
        None \<Rightarrow> Inl SBoxesUndefined
      | Some sb \<Rightarrow>
          if length blk \<noteq> BLOCK_SIZE_BYTES then Inl BadBlockLength
          else if length sb < 4 then Inl TypeError
          else (case roundKeys (cipherKeyExpansion cipher) of
                  None \<Rightarrow> Inl RoundKeysUndefined
                | Some rk \<Rightarrow>
                    Inr (packBlock (whiten round_keys 0
                           (foldl (decRound sb rk) (whiten round_keys 4 (unpackBlock blk))
                                  (rev [0..<NUM_ROUNDS]))))))"

section \<open>Cipher B (macGuffin): constants\<close>

text \<open>
  Modelled from the spec: the module \<open>constants/macGuffin\<close> is not among the sources.
  The spec gives the sizes: an 8-byte block, 32 rounds, a table of 96 16-bit words.
\<close>

definition macGuffin_BLOCK_SIZE_BYTES :: nat where "macGuffin_BLOCK_SIZE_BYTES = 8"
definition macGuffin_HALF_BLOCK_SIZE_BYTES :: nat where
  "macGuffin_HALF_BLOCK_SIZE_BYTES = macGuffin_BLOCK_SIZE_BYTES div 2"
definition macGuffin_NUM_ROUNDS :: nat where "macGuffin_NUM_ROUNDS = 32"
definition KSIZE :: nat where "KSIZE = 96"

text \<open>
  Modelled from the spec: the tables \<open>LOOKUP_MASKS\<close> (four rows of three masks) and
  \<open>OUTPUT_MASKS\<close> (four masks) of the same module are parameters of the model, so
  every result below holds for whatever numbers they contain.
\<close>

record MacGuffinTables =
  LOOKUP_MASKS :: "nat \<Rightarrow> nat \<Rightarrow> i32"
  OUTPUT_MASKS :: "nat \<Rightarrow> i32"

section \<open>Cipher B: FFunction.ts\<close>

definition FFunction_getBlockSizeBytes :: nat where
  "FFunction_getBlockSizeBytes = macGuffin_HALF_BLOCK_SIZE_BYTES"

text \<open>
  \<open>stable[index]\<close> on a \<open>Uint16Array\<close>: \<open>undefined\<close>, read as 0 by \<open>&\<close>, when the
  index is negative or beyond the end.
\<close>

definition stableAt :: "u16 list \<Rightarrow> i32 \<Rightarrow> i32" where
  "stableAt stbl index =
     (if 0 \<le> sint index \<and> nat (sint index) < length stbl
      then ucast (stbl ! nat (sint index)) else 0)"

definition f_optimized :: "MacGuffinTables \<Rightarrow> i32 \<Rightarrow> i32 \<Rightarrow> i32 \<Rightarrow> u16 list \<Rightarrow> i32" where
  "f_optimized tb a b c stbl =
     foldl (\<lambda>result j.
              let index = (a AND LOOKUP_MASKS tb j 0) OR (b AND LOOKUP_MASKS tb j 1)
                          OR (c AND LOOKUP_MASKS tb j 2)
              in result OR (OUTPUT_MASKS tb j AND stableAt stbl index))
           0 [0..<4]"

section \<open>Cipher B: FeistelBlockCipher.ts\<close>

text \<open>
  The type \<open>MacGuffinKey = { val: Uint16Array }\<close>: an object with the one field \<open>val\<close>,
  handed to the engine by reference.
\<close>

record MacGuffinKey =
  val :: "u16 list"

text \<open>The fields \<open>stable_\<close> and \<open>numRounds_\<close> of the class.\<close>

record MacGuffinCipher =
  stableTable :: "u16 list"
  numRounds :: int

definition MacGuffinCipher_new :: "u16 list \<Rightarrow> int \<Rightarrow> error + MacGuffinCipher" where
  "MacGuffinCipher_new st n =
     (if n \<le> 0 then Inl InvalidNumRounds else Inr \<lparr> stableTable = st, numRounds = n \<rparr>)"

definition MacGuffinCipher_getBlockSizeBytes :: nat where
  "MacGuffinCipher_getBlockSizeBytes = FFunction_getBlockSizeBytes * 2"

type_synonym rstate = "i32 \<times> i32 \<times> i32 \<times> i32"

definition loadRegs :: "byte list \<Rightarrow> rstate" where
  "loadRegs blk =
     (byteAt blk 0 OR push_bit 8 (byteAt blk 1), byteAt blk 2 OR push_bit 8 (byteAt blk 3),
      byteAt blk 4 OR push_bit 8 (byteAt blk 5), byteAt blk 6 OR push_bit 8 (byteAt blk 7))"

text \<open>Storing into the \<open>Uint8Array\<close> keeps the low 8 bits: that is \<open>ucast\<close>.\<close>

definition storeRegs :: "rstate \<Rightarrow> byte list" where
  "storeRegs st =
     (case st of (r0, r1, r2, r3) \<Rightarrow>
        [ucast r0, ucast (signed_drop_bit 8 r0), ucast r1, ucast (signed_drop_bit 8 r1),
         ucast r2, ucast (signed_drop_bit 8 r2), ucast r3, ucast (signed_drop_bit 8 r3)])"

text \<open>The body of the \<open>for\<close> loop of \<open>encryptBlock\<close>: four rounds, at index \<open>i\<close>.\<close>

definition encGroup :: "MacGuffinTables \<Rightarrow> u16 list \<Rightarrow> u16 list \<Rightarrow> rstate \<Rightarrow> nat \<Rightarrow> rstate" where
  "encGroup tb stbl ek st i =
     (case st of (r0, r1, r2, r3) \<Rightarrow>
        let r0 = r0 XOR f_optimized tb (r1 XOR u16At ek (i * 12)) (r2 XOR u16At ek (i * 12 + 1))
                          (r3 XOR u16At ek (i * 12 + 2)) stbl;
            r1 = r1 XOR f_optimized tb (r2 XOR u16At ek (i * 12 + 3)) (r3 XOR u16At ek (i * 12 + 4))
                          (r0 XOR u16At ek (i * 12 + 5)) stbl;
            r2 = r2 XOR f_optimized tb (r3 XOR u16At ek (i * 12 + 6)) (r0 XOR u16At ek (i * 12 + 7))
                          (r1 XOR u16At ek (i * 12 + 8)) stbl;
            r3 = r3 XOR f_optimized tb (r0 XOR u16At ek (i * 12 + 9)) (r1 XOR u16At ek (i * 12 + 10))
                          (r2 XOR u16At ek (i * 12 + 11)) stbl
        in (r0, r1, r2, r3))"

text \<open>
  \<open>encryptBlock\<close> receives the key object by reference. It works on the copy
  \<open>new Uint16Array(key.val)\<close> and assigns nothing to \<open>key\<close>; the result is the output
  block together with the key object as the call leaves it.
\<close>

definition macGuffin_encryptBlock ::
  "MacGuffinTables \<Rightarrow> MacGuffinCipher \<Rightarrow> byte list \<Rightarrow> MacGuffinKey \<Rightarrow> byte list \<times> MacGuffinKey" where
  "macGuffin_encryptBlock tb cipher blk key =
     (let ek = val key
      in (storeRegs (foldl (encGroup tb (stableTable cipher) ek) (loadRegs blk)
                           [0..<macGuffin_NUM_ROUNDS div 4]),
          key))"

text \<open>The body of the \<open>for\<close> loop of \<open>decryptBlock\<close>; \<open>i\<close> runs downwards.\<close>

definition decGroup :: "MacGuffinTables \<Rightarrow> u16 list \<Rightarrow> u16 list \<Rightarrow> rstate \<Rightarrow> nat \<Rightarrow> rstate" where
  "decGroup tb stbl ek st i =
     (case st of (r0, r1, r2, r3) \<Rightarrow>
        let r3 = r3 XOR f_optimized tb (r0 XOR u16At ek (i * 12 + 9)) (r1 XOR u16At ek (i * 12 + 10))
                          (r2 XOR u16At ek (i * 12 + 11)) stbl;
            r2 = r2 XOR f_optimized tb (r3 XOR u16At ek (i * 12 + 6)) (r0 XOR u16At ek (i * 12 + 7))
                          (r1 XOR u16At ek (i * 12 + 8)) stbl;
            r1 = r1 XOR f_optimized tb (r2 XOR u16At ek (i * 12 + 3)) (r3 XOR u16At ek (i * 12 + 4))
                          (r0 XOR u16At ek (i * 12 + 5)) stbl;
            r0 = r0 XOR f_optimized tb (r1 XOR u16At ek (i * 12)) (r2 XOR u16At ek (i * 12 + 1))
                          (r3 XOR u16At ek (i * 12 + 2)) stbl
        in (r0, r1, r2, r3))"

definition macGuffin_decryptBlock ::
  "MacGuffinTables \<Rightarrow> MacGuffinCipher \<Rightarrow> byte list \<Rightarrow> MacGuffinKey \<Rightarrow> byte list \<times> MacGuffinKey" where
  "macGuffin_decryptBlock tb cipher blk key =
     (let ek = val key
      in (storeRegs (foldl (decGroup tb (stableTable cipher) ek) (loadRegs blk)
                           (rev [0..<macGuffin_NUM_ROUNDS div 4])),
          key))"

section \<open>Cipher B: KeyExpansion.ts\<close>

text \<open>
  \<open>ek.val[n] ^= k[m] | (k[m + 1] << 8)\<close> on the \<open>Uint16Array\<close> of the key object: the
  store keeps 16 bits, and a store beyond the end is ignored, as \<open>list_update\<close> does.
\<close>

definition xorInto :: "MacGuffinKey \<Rightarrow> nat \<Rightarrow> byte list \<Rightarrow> nat \<Rightarrow> MacGuffinKey" where
  "xorInto ek n k m =
     ek\<lparr>val := (val ek)[n := ucast (u16At (val ek) n XOR (byteAt k m OR push_bit 8 (byteAt k (m + 1))))]\<rparr>"

text \<open>
  \<open>generateRoundKeys\<close>, from the source: the inner loop over \<open>j\<close> on the pair of the
  current half \<open>k[i]\<close> and the key object \<open>ek\<close>, which goes through the call of
  \<open>encryptBlock\<close>, and the outer loop over \<open>i\<close> on the two halves. The result is the
  object assigned to \<open>this.roundKeys_\<close>.
\<close>

function keyInnerLoop ::
  "MacGuffinTables \<Rightarrow> MacGuffinCipher \<Rightarrow> nat \<Rightarrow> byte list \<times> MacGuffinKey \<Rightarrow> byte list \<times> MacGuffinKey" where
  "keyInnerLoop tb cipher j (ki, ek) =
     (if j < 32
      then let (ki', ek0) = macGuffin_encryptBlock tb cipher ki ek;
               ek1 = xorInto ek0 (j * 3) ki' 0;
               ek2 = xorInto ek1 (j * 3 + 1) ki' 2;
               ek3 = xorInto ek2 (j * 3 + 2) ki' 4
           in keyInnerLoop tb cipher (j + 1) (ki', ek3)
      else (ki, ek))"
  by pat_completeness auto
termination
  by (relation "measure (\<lambda>(tb, cipher, j, st). 32 - j)") auto

declare keyInnerLoop.simps [simp del]

function keyOuterLoop ::
  "MacGuffinTables \<Rightarrow> MacGuffinCipher \<Rightarrow> nat \<Rightarrow> byte list list \<times> MacGuffinKey \<Rightarrow> byte list list \<times> MacGuffinKey" where
  "keyOuterLoop tb cipher i (k, ek) =
     (if i < 2
      then let (ki, ek') = keyInnerLoop tb cipher 0 (k ! i, ek)
           in keyOuterLoop tb cipher (i + 1) (k[i := ki], ek')
      else (k, ek))"
  by pat_completeness auto
termination
  by (relation "measure (\<lambda>(tb, cipher, i, st). 2 - i)") auto

declare keyOuterLoop.simps [simp del]

definition generateRoundKeys :: "MacGuffinTables \<Rightarrow> MacGuffinCipher \<Rightarrow> byte list \<Rightarrow> MacGuffinKey" where
  "generateRoundKeys tb cipher masterKey =
     (let ek = \<lparr> val = replicate KSIZE 0 \<rparr>;
          k = [take 8 masterKey, take 8 (drop 8 masterKey)]
      in snd (keyOuterLoop tb cipher 0 (k, ek)))"

text \<open>
  The same schedule in the words of the spec, written without the operations of the
  source. A little-endian 16-bit word of a low and a high byte is the number
  \<open>lo + 256 * hi\<close>. One iteration replaces the half by its encryption by the block
  engine under the current table and gives the table in which entry \<open>3j\<close> is XORed
  with the word of bytes 0 and 1 of the result, entry \<open>3j+1\<close> with that of bytes 2 and
  3, entry \<open>3j+2\<close> with that of bytes 4 and 5, and every other entry is as before. The
  schedule is the fold of 32 such iterations over each of the two 8-byte halves of the
  key, from a table of 96 zeros.
\<close>

definition littleEndian16 :: "byte \<Rightarrow> byte \<Rightarrow> u16" where
  "littleEndian16 lo hi = of_nat (unat lo + 256 * unat hi)"

definition xorThreeWords :: "u16 list \<Rightarrow> nat \<Rightarrow> byte list \<Rightarrow> u16 list" where
  "xorThreeWords table j half =
     map (\<lambda>n. if n = 3 * j then table ! n XOR littleEndian16 (half ! 0) (half ! 1)
               else if n = 3 * j + 1 then table ! n XOR littleEndian16 (half ! 2) (half ! 3)
               else if n = 3 * j + 2 then table ! n XOR littleEndian16 (half ! 4) (half ! 5)
               else table ! n)
         [0..<length table]"

definition bootstrapStep ::
  "MacGuffinTables \<Rightarrow> MacGuffinCipher \<Rightarrow> byte list \<times> u16 list \<Rightarrow> nat \<Rightarrow> byte list \<times> u16 list" where
  "bootstrapStep tb cipher st j =
     (let half = fst (macGuffin_encryptBlock tb cipher (fst st) \<lparr> val = snd st \<rparr>)
      in (half, xorThreeWords (snd st) j half))"

definition bootstrapHalf :: "MacGuffinTables \<Rightarrow> MacGuffinCipher \<Rightarrow> u16 list \<Rightarrow> byte list \<Rightarrow> u16 list" where
  "bootstrapHalf tb cipher table half = snd (foldl (bootstrapStep tb cipher) (half, table) [0..<32])"

definition bootstrapFold :: "MacGuffinTables \<Rightarrow> MacGuffinCipher \<Rightarrow> byte list \<Rightarrow> u16 list" where
  "bootstrapFold tb cipher masterKey =
     foldl (bootstrapHalf tb cipher) (replicate 96 0) [take 8 masterKey, take 8 (drop 8 masterKey)]"

text \<open>
  The life of a finished table: block operations of an engine, one after the other, each
  receiving the key object the one before left.
\<close>

datatype blockOp = EncryptBlock "byte list" | DecryptBlock "byte list"

fun runBlockOps ::
  "MacGuffinTables \<Rightarrow> MacGuffinCipher \<Rightarrow> MacGuffinKey \<Rightarrow> blockOp list \<Rightarrow> byte list list \<times> MacGuffinKey" where
  "runBlockOps tb cipher key [] = ([], key)"
| "runBlockOps tb cipher key (oper # rest) =
     (let (out, key') = (case oper of
                           EncryptBlock blk \<Rightarrow> macGuffin_encryptBlock tb cipher blk key
                         | DecryptBlock blk \<Rightarrow> macGuffin_decryptBlock tb cipher blk key);
          (outs, key'') = runBlockOps tb cipher key' rest
      in (out # outs, key''))"

section \<open>CipherContextBase: initialisation vector and padding\<close>

datatype CipherPadding = Zeros | ANSIX923 | PKCS7 | ISO10126

text \<open>
  Modelled from the spec: the enum \<open>CipherMode\<close> of \<open>types/state\<close> is not among the
  sources. Its members are the six modes of the spec and \<open>RANDOM_DELTA\<close>, which the
  \<open>switch\<close> statements name; \<open>OtherMode\<close> stands for any value that reaches \<open>default\<close>.
\<close>

datatype CipherMode = ECB | CBC | PCBC | CFB | OFB | CTR | RANDOM_DELTA | OtherMode

datatype CipherFamily = CipherA | CipherB

text \<open>\<open>getBlockSizeBytes()\<close> of the twoFish context: the static block size of its engine.\<close>

definition CipherContext_getBlockSizeBytes :: nat where
  "CipherContext_getBlockSizeBytes = FeistelBlockCipher_getBlockSizeBytes"

text \<open>
  Modelled from the spec: the macGuffin context is not among the sources. Its
  \<open>getBlockSizeBytes()\<close> returns the block size of the macGuffin engine, 8 bytes.
\<close>

definition macGuffin_CipherContext_getBlockSizeBytes :: nat where
  "macGuffin_CipherContext_getBlockSizeBytes = MacGuffinCipher_getBlockSizeBytes"

text \<open>\<open>this.getBlockSizeBytes()\<close> in the base class, by the family of the context.\<close>

definition getBlockSizeBytes :: "CipherFamily \<Rightarrow> nat" where
  "getBlockSizeBytes fam =
     (case fam of CipherA \<Rightarrow> CipherContext_getBlockSizeBytes
                | CipherB \<Rightarrow> macGuffin_CipherContext_getBlockSizeBytes)"

text \<open>\<open>paddedData.fill(v, start, end)\<close>.\<close>

definition fill :: "byte \<Rightarrow> nat \<Rightarrow> nat \<Rightarrow> byte list \<Rightarrow> byte list" where
  "fill v start end xs = map (\<lambda>i. if start \<le> i \<and> i < end then v else xs ! i) [0..<length xs]"

text \<open>
  \<open>_addPadding\<close>. The random bytes of ISO10126 come from the argument \<open>rnd\<close>, one
  byte for each position written.
\<close>

definition addPadding :: "CipherFamily \<Rightarrow> CipherPadding \<Rightarrow> (nat \<Rightarrow> byte) \<Rightarrow> byte list \<Rightarrow> byte list" where
  "addPadding fam pad rnd data =
     (let blockSize = getBlockSizeBytes fam;
          paddingLength = blockSize - length data mod blockSize;
          paddingLength = (if paddingLength = 0 then blockSize else paddingLength);
          paddedData = data @ replicate paddingLength 0
      in case pad of
           Zeros \<Rightarrow> paddedData
         | ANSIX923 \<Rightarrow>
             (fill 0 (length data) (length paddedData - 1) paddedData)
               [length paddedData - 1 := of_nat paddingLength]
         | PKCS7 \<Rightarrow> fill (of_nat paddingLength) (length data) (length paddedData) paddedData
         | ISO10126 \<Rightarrow>
             (foldl (\<lambda>arr i. arr[i := rnd i]) paddedData [length data..<length paddedData - 1])
               [length paddedData - 1 := of_nat paddingLength])"

text \<open>
  The loops of \<open>_removePadding\<close>. \<open>countZeros data n p\<close> is the \<open>while\<close> loop of the
  Zeros case at \<open>i = n - 1\<close>; the two checks return \<open>False\<close> where the source throws.
\<close>

fun countZeros :: "byte list \<Rightarrow> nat \<Rightarrow> nat \<Rightarrow> nat" where
  "countZeros data 0 paddingLength = paddingLength"
| "countZeros data (Suc i) paddingLength =
     (if data ! i = 0 then countZeros data i (Suc paddingLength) else paddingLength)"

function ansiCheck :: "byte list \<Rightarrow> nat \<Rightarrow> nat \<Rightarrow> bool" where
  "ansiCheck data paddingLength j =
     (if j < paddingLength
      then (if data ! (length data - 1 - j) \<noteq> 0 then False
            else ansiCheck data paddingLength (j + 1))
      else True)"
  by pat_completeness auto
termination
  by (relation "measure (\<lambda>(data, p, j). p - j)") auto

declare ansiCheck.simps [simp del]

function pkcs7Check :: "byte list \<Rightarrow> nat \<Rightarrow> nat \<Rightarrow> bool" where
  "pkcs7Check data paddingLength j =
     (if j \<le> paddingLength
      then (if unat (data ! (length data - j)) \<noteq> paddingLength then False
            else pkcs7Check data paddingLength (j + 1))
      else True)"
  by pat_completeness auto
termination
  by (relation "measure (\<lambda>(data, p, j). Suc p - j)") auto

declare pkcs7Check.simps [simp del]

text \<open>
  \<open>_removePadding\<close>. On an empty buffer the last byte is \<open>undefined\<close>: every
  comparison with it is false and \<open>slice(0, NaN)\<close> is empty, so the three schemes
  that read it return the empty buffer. The indices of the checks are in range:
  they are reached with a pad length of at most the block size on a non-empty buffer
  of a multiple of the block size.
\<close>

definition removePadding :: "CipherFamily \<Rightarrow> CipherPadding \<Rightarrow> byte list \<Rightarrow> error + byte list" where
  "removePadding fam pad data =
     (let blockSize = getBlockSizeBytes fam
      in if length data mod blockSize \<noteq> 0 then Inl MisalignedCiphertext
         else case pad of
           Zeros \<Rightarrow>
             (let paddingLength = countZeros data (length data) 0
              in if length data < paddingLength then Inl PaddingValidationFailed
                 else Inr (take (length data - paddingLength) data))
         | ANSIX923 \<Rightarrow>
             (if data = [] then Inr []
              else let paddingLength = unat (data ! (length data - 1))
                   in if paddingLength > blockSize \<or> paddingLength = 0
                      then Inl PaddingValidationFailed
                      else if \<not> ansiCheck data paddingLength 1 then Inl PaddingValidationFailed
                      else if length data < paddingLength then Inl PaddingValidationFailed
                      else Inr (take (length data - paddingLength) data))
         | PKCS7 \<Rightarrow>
             (if data = [] then Inr []
              else let paddingLength = unat (data ! (length data - 1))
                   in if paddingLength > blockSize \<or> paddingLength = 0
                      then Inl PaddingValidationFailed
                      else if \<not> pkcs7Check data paddingLength 1 then Inl PaddingValidationFailed
                      else if length data < paddingLength then Inl PaddingValidationFailed
                      else Inr (take (length data - paddingLength) data))
         | ISO10126 \<Rightarrow>
             (if data = [] then Inr []
              else let paddingLength = unat (data ! (length data - 1))
                   in if paddingLength > blockSize \<or> paddingLength = 0
                      then Inl PaddingValidationFailed
                      else if length data < paddingLength then Inl PaddingValidationFailed
                      else Inr (take (length data - paddingLength) data)))"

section \<open>Cipher A: CipherContext.ts\<close>

text \<open>
  The private fields of \<open>CipherContextBase\<close> that the twoFish context uses. The block
  cipher is \<open>None\<close> while it is the \<open>IBlockCipher\<close> of the field initialiser, the key
  expansion is \<open>IKeyExpansion_new\<close> until a key is set.
\<close>

record CipherContext =
  ctxBlockCipher :: "FeistelBlockCipher option"
  ctxKeyExpansion :: KeyExpansion
  ctxMode :: CipherMode
  ctxPadding :: CipherPadding
  ctxIv :: "byte list option"
  ctxMasterKey :: "byte list option"

definition CipherContext_new :: CipherContext where
  "CipherContext_new =
     \<lparr> ctxBlockCipher = None, ctxKeyExpansion = IKeyExpansion_new, ctxMode = ECB,
       ctxPadding = Zeros, ctxIv = None, ctxMasterKey = None \<rparr>"

definition seqE :: "error + 'a \<Rightarrow> ('a \<Rightarrow> error + 'b) \<Rightarrow> error + 'b" where
  "seqE m f = (case m of Inl e \<Rightarrow> Inl e | Inr v \<Rightarrow> f v)"

text \<open>
  \<open>setIv\<close> of the base class compares with the constant \<open>BLOCK_SIZE_BYTES\<close> that the
  base class imports from \<open>constants/macGuffin\<close>. A \<open>Uint8Array\<close> is truthy also when
  it is empty, so only \<open>null\<close> skips the comparison.
\<close>

definition setIv :: "CipherContext \<Rightarrow> byte list option \<Rightarrow> error + CipherContext" where
  "setIv ctx v =
     (case v of
        None \<Rightarrow> Inr (ctx\<lparr>ctxIv := None\<rparr>)
      | Some bytes \<Rightarrow>
          if length bytes \<noteq> macGuffin_BLOCK_SIZE_BYTES then Inl InvalidIvLength
          else Inr (ctx\<lparr>ctxIv := Some bytes\<rparr>))"

definition setMode :: "CipherContext \<Rightarrow> CipherMode \<Rightarrow> CipherContext" where
  "setMode ctx m = ctx\<lparr>ctxMode := m\<rparr>"

definition setMasterKey :: "CipherContext \<Rightarrow> byte list \<Rightarrow> error + CipherContext" where
  "setMasterKey ctx masterKey =
     (if length masterKey \<notin> set MASTER_KEY_SIZE_BYTES then Inl InvalidKeyLength
      else seqE (KeyExpansion_new masterKey) (\<lambda>ke.
           seqE (FeistelBlockCipher_new ke (int NUM_ROUNDS)) (\<lambda>feistelCipher.
           Inr (ctx\<lparr>ctxBlockCipher := Some feistelCipher, ctxKeyExpansion := ke,
                     ctxMasterKey := Some masterKey\<rparr>))))"

text \<open>
  The calls through \<open>this.blockCipher\<close>. \<open>encryptBlock\<close> and \<open>decryptBlock\<close> are
  overridden by the engine. \<open>getBlockSizeBytes\<close> is not: the engine declares it
  \<open>static\<close>, so the call on the instance runs the method of \<open>IBlockCipher\<close>, which throws.
\<close>

definition IBlockCipher_getBlockSizeBytes :: "error + nat" where
  "IBlockCipher_getBlockSizeBytes = Inl NotImplemented"

definition blockCipher_getBlockSizeBytes :: "FeistelBlockCipher option \<Rightarrow> error + nat" where
  "blockCipher_getBlockSizeBytes bc =
     (case bc of None \<Rightarrow> IBlockCipher_getBlockSizeBytes
               | Some cipher \<Rightarrow> IBlockCipher_getBlockSizeBytes)"

definition blockCipher_encryptBlock ::
  "FeistelBlockCipher option \<Rightarrow> byte list \<Rightarrow> int list \<Rightarrow> error + byte list" where
  "blockCipher_encryptBlock bc blk rk =
     (case bc of None \<Rightarrow> Inl NotImplemented | Some cipher \<Rightarrow> encryptBlock cipher blk rk)"

definition blockCipher_decryptBlock ::
  "FeistelBlockCipher option \<Rightarrow> byte list \<Rightarrow> int list \<Rightarrow> error + byte list" where
  "blockCipher_decryptBlock bc blk rk =
     (case bc of None \<Rightarrow> Inl NotImplemented | Some cipher \<Rightarrow> decryptBlock cipher blk rk)"

text \<open>
  The CTR branch. \<open>counterBlock.set(this.iv)\<close> raises a RangeError when the IV is
  longer than the counter block. \<open>new DataView(currentBlock.buffer).getUint32(0)\<close>
  reads the first four bytes of the buffer big-endian and raises a RangeError on fewer
  than four. The model is of blocks that own their buffer (\<open>byteOffset\<close> 0, the whole
  buffer), for which these are the first four bytes of the block; a block that is a view
  into a larger buffer is outside it.
\<close>

definition counterSet :: "nat \<Rightarrow> byte list \<Rightarrow> error + byte list" where
  "counterSet n bytes =
     (if length bytes > n then Inl RangeError else Inr (bytes @ replicate (n - length bytes) 0))"

definition getUint32 :: "byte list \<Rightarrow> error + int" where
  "getUint32 buf =
     (if length buf < 4 then Inl RangeError
      else Inr (uint (buf ! 0) * 2 ^ 24 + uint (buf ! 1) * 2 ^ 16 + uint (buf ! 2) * 2 ^ 8
                + uint (buf ! 3)))"

text \<open>
  The carry loop at \<open>k = n - 1\<close>: \<open>sum & 0xFF\<close> is stored, \<open>sum >> 8\<close> is the
  arithmetic shift of \<open>ToInt32(sum)\<close>.
\<close>

fun carryLoop :: "nat \<Rightarrow> int \<Rightarrow> byte list \<Rightarrow> byte list" where
  "carryLoop 0 carry counterBlock = counterBlock"
| "carryLoop (Suc k) carry counterBlock =
     (if carry > 0
      then let sum = uint (counterBlock ! k) + carry
           in carryLoop k (sint (signed_drop_bit 8 (word_of_int sum :: i32)))
                        (counterBlock[k := word_of_int sum])
      else counterBlock)"

definition ctrCounter :: "nat \<Rightarrow> byte list \<Rightarrow> byte list \<Rightarrow> error + byte list" where
  "ctrCounter n bytes currentBlock =
     seqE (counterSet n bytes) (\<lambda>counterBlock.
     seqE (getUint32 currentBlock) (\<lambda>carry.
     Inr (carryLoop (length counterBlock) carry counterBlock)))"

definition ctrBranch ::
  "CipherContext \<Rightarrow> int list \<Rightarrow> byte list \<Rightarrow> byte list \<Rightarrow> nat \<Rightarrow> error + byte list" where
  "ctrBranch ctx rk bytes currentBlock n =
     seqE (ctrCounter n bytes currentBlock) (\<lambda>counterBlock.
     seqE (blockCipher_encryptBlock (ctxBlockCipher ctx) counterBlock rk) (\<lambda>streamCTR.
     xorBytes (drop 32 currentBlock) streamCTR))"

text \<open>
  \<open>encrypt\<close> and \<open>decrypt\<close> return the block (\<open>None\<close> for the \<open>null\<close> of the
  \<open>RANDOM_DELTA\<close> branch) and the context as the call leaves it. In \<open>decrypt\<close> the
  remainder by a block size of 0 is \<open>NaN\<close>, which differs from 0.
\<close>

definition encrypt :: "CipherContext \<Rightarrow> byte list \<Rightarrow> error + (byte list option \<times> CipherContext)" where
  "encrypt ctx currentBlock =
     (case roundKeys (ctxKeyExpansion ctx) of
        None \<Rightarrow> Inl RoundKeysNotSet
      | Some rk \<Rightarrow>
        if currentBlock = [] then Inl EmptyData
        else let bc = ctxBlockCipher ctx in
          case ctxMode ctx of
            ECB \<Rightarrow>
              seqE (blockCipher_encryptBlock bc currentBlock rk) (\<lambda>encryptedBlock.
              Inr (Some encryptedBlock, ctx))
          | CBC \<Rightarrow>
              (case ctxIv ctx of None \<Rightarrow> Inl MissingIv | Some bytes \<Rightarrow>
                 seqE (xorBytes currentBlock bytes) (\<lambda>xoredBlockCBC.
                 seqE (blockCipher_encryptBlock bc xoredBlockCBC rk) (\<lambda>encryptedBlock.
                 seqE (setIv ctx (Some encryptedBlock)) (\<lambda>ctx'.
                 Inr (Some encryptedBlock, ctx')))))
          | PCBC \<Rightarrow>
              (case ctxIv ctx of None \<Rightarrow> Inl MissingIv | Some bytes \<Rightarrow>
                 seqE (xorBytes currentBlock bytes) (\<lambda>xoredBlockPCBC.
                 seqE (blockCipher_encryptBlock bc xoredBlockPCBC rk) (\<lambda>encryptedBlock.
                 seqE (xorBytes currentBlock encryptedBlock) (\<lambda>next.
                 seqE (setIv ctx (Some next)) (\<lambda>ctx'.
                 Inr (Some encryptedBlock, ctx'))))))
          | CFB \<Rightarrow>
              (case ctxIv ctx of None \<Rightarrow> Inl MissingIv | Some bytes \<Rightarrow>
                 seqE (blockCipher_encryptBlock bc bytes rk) (\<lambda>streamCFB.
                 seqE (xorBytes currentBlock streamCFB) (\<lambda>encryptedBlock.
                 seqE (setIv ctx (Some encryptedBlock)) (\<lambda>ctx'.
                 Inr (Some encryptedBlock, ctx')))))
          | OFB \<Rightarrow>
              (case ctxIv ctx of None \<Rightarrow> Inl MissingIv | Some bytes \<Rightarrow>
                 seqE (blockCipher_encryptBlock bc bytes rk) (\<lambda>next.
                 seqE (setIv ctx (Some next)) (\<lambda>ctx'.
                 seqE (xorBytes currentBlock next) (\<lambda>encryptedBlock.
                 Inr (Some encryptedBlock, ctx')))))
          | CTR \<Rightarrow>
              (case ctxIv ctx of None \<Rightarrow> Inl MissingIv | Some bytes \<Rightarrow>
                 seqE (blockCipher_getBlockSizeBytes bc) (\<lambda>n.
                 seqE (ctrBranch ctx rk bytes currentBlock n) (\<lambda>encryptedBlock.
                 Inr (Some encryptedBlock, ctx))))
          | RANDOM_DELTA \<Rightarrow> Inr (None, ctx)
          | OtherMode \<Rightarrow> Inl UnsupportedMode)"

definition decrypt :: "CipherContext \<Rightarrow> byte list \<Rightarrow> error + (byte list option \<times> CipherContext)" where
  "decrypt ctx currentBlock =
     (case roundKeys (ctxKeyExpansion ctx) of
        None \<Rightarrow> Inl RoundKeysNotSet
      | Some rk \<Rightarrow>
        if currentBlock = [] then Inl MisalignedCiphertext
        else let bc = ctxBlockCipher ctx in
          seqE (blockCipher_getBlockSizeBytes bc) (\<lambda>blockSize.
          if blockSize = 0 then Inl MisalignedCiphertext
          else if length currentBlock mod blockSize \<noteq> 0 then Inl MisalignedCiphertext
          else
          case ctxMode ctx of
            ECB \<Rightarrow>
              seqE (blockCipher_decryptBlock bc currentBlock rk) (\<lambda>decryptedBlock.
              Inr (Some decryptedBlock, ctx))
          | CBC \<Rightarrow>
              (case ctxIv ctx of None \<Rightarrow> Inl MissingIv | Some bytes \<Rightarrow>
                 seqE (blockCipher_decryptBlock bc currentBlock rk) (\<lambda>d.
                 seqE (xorBytes d bytes) (\<lambda>decryptedBlock.
                 seqE (setIv ctx (Some currentBlock)) (\<lambda>ctx'.
                 Inr (Some decryptedBlock, ctx')))))
          | PCBC \<Rightarrow>
              (case ctxIv ctx of None \<Rightarrow> Inl MissingIv | Some bytes \<Rightarrow>
                 seqE (blockCipher_decryptBlock bc currentBlock rk) (\<lambda>d.
                 seqE (xorBytes d bytes) (\<lambda>decryptedBlock.
                 seqE (xorBytes decryptedBlock currentBlock) (\<lambda>next.
                 seqE (setIv ctx (Some next)) (\<lambda>ctx'.
                 Inr (Some decryptedBlock, ctx'))))))
          | CFB \<Rightarrow>
              (case ctxIv ctx of None \<Rightarrow> Inl MissingIv | Some bytes \<Rightarrow>
                 seqE (blockCipher_encryptBlock bc bytes rk) (\<lambda>streamCFB.
                 seqE (xorBytes currentBlock streamCFB) (\<lambda>decryptedBlock.
                 seqE (setIv ctx (Some currentBlock)) (\<lambda>ctx'.
                 Inr (Some decryptedBlock, ctx')))))
          | OFB \<Rightarrow>
              (case ctxIv ctx of None \<Rightarrow> Inl MissingIv | Some bytes \<Rightarrow>
                 seqE (blockCipher_encryptBlock bc bytes rk) (\<lambda>next.
                 seqE (setIv ctx (Some next)) (\<lambda>ctx'.
                 seqE (xorBytes currentBlock next) (\<lambda>decryptedBlock.
                 Inr (Some decryptedBlock, ctx')))))
          | CTR \<Rightarrow>
              (case ctxIv ctx of None \<Rightarrow> Inl MissingIv | Some bytes \<Rightarrow>
                 seqE (blockCipher_getBlockSizeBytes bc) (\<lambda>n.
                 seqE (ctrBranch ctx rk bytes currentBlock n) (\<lambda>decryptedBlock.
                 Inr (Some decryptedBlock, ctx))))
          | RANDOM_DELTA \<Rightarrow> Inr (None, ctx)
          | OtherMode \<Rightarrow> Inl UnsupportedMode))"

section \<open>Notions used in the statements and proofs\<close>

text \<open>A register of Cipher B holds a 16-bit value.\<close>

definition is16 :: "i32 \<Rightarrow> bool" where
  "is16 w \<longleftrightarrow> take_bit 16 w = w"

definition regs16 :: "rstate \<Rightarrow> bool" where
  "regs16 st = (case st of (r0, r1, r2, r3) \<Rightarrow> is16 r0 \<and> is16 r1 \<and> is16 r2 \<and> is16 r3)"

text \<open>The pad length \<open>_addPadding\<close> computes; it is never 0.\<close>

definition padLen :: "CipherFamily \<Rightarrow> byte list \<Rightarrow> nat" where
  "padLen fam data = getBlockSizeBytes fam - length data mod getBlockSizeBytes fam"

text \<open>The object the constructor of the twoFish \<open>KeyExpansion\<close> builds from a key.\<close>

definition expansionOf :: "byte list \<Rightarrow> KeyExpansion" where
  "expansionOf masterKey =
     \<lparr> sBoxes = Some (generateSBoxesInternal (makeS masterKey)),
       roundKeys = Some (generateRoundKeysInternal (makeM masterKey)),
       vecM = makeM masterKey, vecS = makeS masterKey \<rparr>"

text \<open>
  Concrete inputs: the 16-byte key of zeros, and the twoFish context after
  \<open>setMasterKey(zeroKey)\<close>, \<open>setMode(CTR)\<close> and \<open>setIv\<close> of eight zero bytes.
\<close>

definition zeroKey :: "byte list" where
  "zeroKey = replicate 16 0"

definition exampleCtrContext :: CipherContext where
  "exampleCtrContext =
     \<lparr> ctxBlockCipher = Some \<lparr>cipherKeyExpansion = expansionOf zeroKey, cipherNumRounds = 16\<rparr>,
       ctxKeyExpansion = expansionOf zeroKey, ctxMode = CTR, ctxPadding = Zeros,
       ctxIv = Some (replicate 8 0), ctxMasterKey = Some zeroKey \<rparr>"

section \<open>Words, bytes and rotations\<close>

lemma xor_cancel_right: "(a XOR k) XOR k = (a::'a::len word)"
  by (simp add: xor.assoc)

lemma rot_1: "rot w 1 = push_bit 1 w OR drop_bit 31 w"
  by (simp add: rot_def del: push_bit_Suc drop_bit_Suc)

lemma rot_m1: "rot w (- 1) = drop_bit 1 w OR push_bit 31 w"
  by (simp add: rot_def del: push_bit_Suc drop_bit_Suc)

lemma rot_left_right: "rot (rot w 1) (- 1) = w"
  unfolding rot_1 rot_m1
proof (rule bit_word_eqI)
  fix n assume "n < LENGTH(32)"
  then show "bit (drop_bit 1 (push_bit 1 w OR drop_bit 31 w) OR push_bit 31 (push_bit 1 w OR drop_bit 31 w)) n = bit w n"
    by (cases "n = 31") (auto simp add: bit_simps simp del: push_bit_Suc drop_bit_Suc)
qed

lemma rot_right_left: "rot (rot w (- 1)) 1 = w"
  unfolding rot_1 rot_m1
  apply (rule bit_word_eqI) 
  apply (auto simp add: bit_simps simp del: push_bit_Suc drop_bit_Suc)
  done

lemma and_255: "x AND 0xFF = take_bit 8 (x::'a::len word)"
  by (simp add: take_bit_eq_mask mask_eq_decr_exp)

lemma byte_of_pack: 
  fixes a b c d :: byte
  shows "pack4 [a,b,c,d] = push_bit 24 (ucast a) OR push_bit 16 (ucast b) OR push_bit 8 (ucast c) OR ucast d"
  by (simp add: pack4_def byteAt_def)

lemma unpack4_pack4: "unpack4 (pack4 [a, b, c, d]) = [a, b, c, d]"
  unfolding byte_of_pack unpack4_def and_255
  apply simp
  apply (intro conjI; rule bit_word_eqI)
     apply (auto simp add: bit_simps dest: bit_imp_le_length)
  done

lemma pack4_unpack4: "pack4 (unpack4 w) = w"
  unfolding unpack4_def pack4_def byteAt_def and_255
  apply simp
  apply (rule bit_word_eqI)
  subgoal for n
    apply (cases "n < 8"; cases "n < 16"; cases "n < 24")
    apply (auto simp add: bit_simps)
    done
  done

lemma length_unpack4 [simp]: "length (unpack4 w) = 4"
  by (simp add: unpack4_def)

lemma list4:
  assumes "length xs = 4"
  shows "\<exists>a b c d. xs = [a, b, c, d]"
proof -
  from assms have "length xs = Suc (Suc (Suc (Suc 0)))" by simp
  then show ?thesis by (auto simp add: length_Suc_conv)
qed

lemma list_split4: "length xs = n + 4 \<Longrightarrow> \<exists>a b c d rest. xs = a # b # c # d # rest \<and> length rest = n"
proof -
  assume l: "length xs = n + 4"
  then have "length (take 4 xs) = 4" by simp
  then obtain a b c d where t: "take 4 xs = [a, b, c, d]" using list4 by blast
  have "xs = take 4 xs @ drop 4 xs" by simp
  then have "xs = a # b # c # d # drop 4 xs" using t by simp
  moreover have "length (drop 4 xs) = n" using l by simp
  ultimately show ?thesis by blast
qed

lemma bytesToWords_16:
  assumes "length blk = 16"
  shows "\<exists>a0 a1 a2 a3 b0 b1 b2 b3 c0 c1 c2 c3 d0 d1 d2 d3.
     blk = [a0, a1, a2, a3, b0, b1, b2, b3, c0, c1, c2, c3, d0, d1, d2, d3]"
proof -
  from assms have "length blk = 12 + 4" by simp
  from list_split4 [OF this] obtain a0 a1 a2 a3 r1 where 1: "blk = a0 # a1 # a2 # a3 # r1" "length r1 = 12" by blast
  then have "length r1 = 8 + 4" by simp
  from list_split4 [OF this] obtain b0 b1 b2 b3 r2 where 2: "r1 = b0 # b1 # b2 # b3 # r2" "length r2 = 8" by blast
  then have "length r2 = 4 + 4" by simp
  from list_split4 [OF this] obtain c0 c1 c2 c3 r3 where 3: "r2 = c0 # c1 # c2 # c3 # r3" "length r3 = 4" by blast
  from list4 [OF 3(2)] obtain d0 d1 d2 d3 where 4: "r3 = [d0, d1, d2, d3]" by blast
  show ?thesis using 1(1) 2(1) 3(1) 4 by blast
qed

lemma bytesToWords_Cons4: "bytesToWords (a # b # c # d # rest) = pack4 [a, b, c, d] # bytesToWords rest"
  by (subst bytesToWords.simps) (simp add: pack4_def byteAt_def)

lemma bytesToWords_Nil: "bytesToWords [] = []"
  by (subst bytesToWords.simps) simp

lemma bytesToWords_unpack4: "bytesToWords (unpack4 w @ rest) = w # bytesToWords rest"
proof -
  obtain a b c d where u: "unpack4 w = [a, b, c, d]"
    by (simp add: unpack4_def)
  have "pack4 [a, b, c, d] = w"
    using pack4_unpack4 [of w] by (simp only: u)
  then show ?thesis
    by (simp add: u bytesToWords_Cons4)
qed

section \<open>Cipher A: the rounds of decryptBlock undo those of encryptBlock\<close>

lemma unpackBlock_packBlock: "unpackBlock (packBlock st) = st"
proof (cases st)
  case (fields w0 w1 w2 w3)
  have "bytesToWords (wordsToBytes [w0, w1, w2, w3]) = [w0, w1, w2, w3]"
    using bytesToWords_unpack4 [of w3 "[]"]
    by (simp add: wordsToBytes_def bytesToWords_unpack4 bytesToWords_Nil)
  then show ?thesis
    by (simp add: fields unpackBlock_def packBlock_def wordAt_def)
qed

lemma length_packBlock: "length (packBlock st) = 16"
  by (cases st) (simp add: packBlock_def wordsToBytes_def)

lemma packBlock_unpackBlock:
  assumes "length blk = 16"
  shows "packBlock (unpackBlock blk) = blk"
proof -
  obtain a0 a1 a2 a3 b0 b1 b2 b3 c0 c1 c2 c3 d0 d1 d2 d3
    where blk: "blk = [a0, a1, a2, a3, b0, b1, b2, b3, c0, c1, c2, c3, d0, d1, d2, d3]"
    using bytesToWords_16 [OF assms] by blast
  have "bytesToWords blk = [pack4 [a0, a1, a2, a3], pack4 [b0, b1, b2, b3],
                            pack4 [c0, c1, c2, c3], pack4 [d0, d1, d2, d3]]"
    by (simp add: blk bytesToWords_Cons4 bytesToWords_Nil)
  then show ?thesis
    by (simp add: unpackBlock_def packBlock_def wordAt_def wordsToBytes_def unpack4_pack4 blk)
qed

lemma whiten_whiten: "whiten rk off (whiten rk off st) = st"
  by (cases st) (simp add: whiten_def xor_cancel_right)

lemma decRound_encRound: "decRound sb rk (encRound sb rk st r) r = st"
  by (cases st) (simp add: decRound_def encRound_def Let_def rot_left_right rot_right_left xor_cancel_right)

lemma foldl_undo:
  assumes "\<And>s x. d (e s x) x = s"
  shows "foldl d (foldl e s xs) (rev xs) = s"
  using assms by (induction xs arbitrary: s) simp_all

lemma decryptBlock_encryptBlock:
  assumes "sBoxes (cipherKeyExpansion cipher) = Some sb"
    and "roundKeys (cipherKeyExpansion cipher) = Some rk"
    and "length blk = 16"
    and "4 \<le> length sb"
  shows "\<exists>ct. encryptBlock cipher blk round_keys = Inr ct \<and> length ct = 16 \<and>
     decryptBlock cipher ct round_keys = Inr blk"
  using assms
  by (simp add: encryptBlock_def decryptBlock_def length_packBlock BLOCK_SIZE_BYTES_def
      unpackBlock_packBlock whiten_whiten foldl_undo [of "decRound sb rk" "encRound sb rk", OF decRound_encRound]
      packBlock_unpackBlock)

section \<open>Cipher B: registers stay 16-bit, and the groups of rounds undo each other\<close>

lemma is16_xor: "is16 a \<Longrightarrow> is16 b \<Longrightarrow> is16 (a XOR b)"
  by (simp add: is16_def)

lemma is16_or: "is16 a \<Longrightarrow> is16 b \<Longrightarrow> is16 (a OR b)"
  by (simp add: is16_def)

lemma is16_and_right: "is16 b \<Longrightarrow> is16 (a AND b)"
  unfolding is16_def
  by (metis take_bit_and and.right_idem take_bit_eq_mask and.assoc)

lemma is16_0: "is16 0"
  by (simp add: is16_def)

lemma is16_ucast: "is16 (ucast (x :: u16))"
  unfolding is16_def
  by (rule bit_word_eqI) (auto simp add: bit_simps dest: bit_imp_le_length)

lemma is16_stableAt: "is16 (stableAt stbl index)"
  by (simp add: stableAt_def is16_ucast is16_0)

lemma is16_u16At: "is16 (u16At ek n)"
  by (simp add: u16At_def is16_ucast is16_0)

lemma is16_foldl_or:
  assumes "is16 r" and "\<And>j. is16 (g j)"
  shows "is16 (foldl (\<lambda>result j. result OR g j) r xs)"
  using assms by (induction xs arbitrary: r) (simp_all add: is16_or)

lemma is16_f_optimized: "is16 (f_optimized tb a b c stbl)"
  unfolding f_optimized_def Let_def
  by (rule is16_foldl_or) (simp_all add: is16_0 is16_and_right is16_stableAt)

lemma is16_pair: "is16 (byteAt blk i OR push_bit 8 (byteAt blk j))"
  unfolding is16_def byteAt_def
  by (rule bit_word_eqI) (auto simp add: bit_simps dest: bit_imp_le_length)

lemma regs16_loadRegs: "regs16 (loadRegs blk)"
  by (simp add: regs16_def loadRegs_def is16_pair)

lemma regs16_encGroup: "regs16 st \<Longrightarrow> regs16 (encGroup tb stbl ek st i)"
  by (cases st) (simp add: regs16_def encGroup_def Let_def is16_xor is16_f_optimized)

lemma regs16_foldl_encGroup: "regs16 st \<Longrightarrow> regs16 (foldl (encGroup tb stbl ek) st xs)"
  by (induction xs arbitrary: st) (simp_all add: regs16_encGroup)

lemma decGroup_encGroup: "decGroup tb stbl ek (encGroup tb stbl ek st i) i = st"
  by (cases st) (simp add: decGroup_def encGroup_def Let_def xor_cancel_right)

lemma reg_load_store:
  assumes "is16 r"
  shows "ucast (ucast r :: byte) OR push_bit 8 (ucast (ucast (signed_drop_bit 8 r) :: byte)) = r"
proof -
  have "take_bit 16 (ucast (ucast r :: byte) OR push_bit 8 (ucast (ucast (signed_drop_bit 8 r) :: byte)) :: i32)
        = take_bit 16 r"
    apply (rule bit_word_eqI)
    subgoal for n
      apply (cases "n < 8")
       apply (auto simp add: bit_simps)
      done
    done
  moreover have "is16 (ucast (ucast r :: byte) OR push_bit 8 (ucast (ucast (signed_drop_bit 8 r) :: byte)))"
    unfolding is16_def
    by (rule bit_word_eqI) (auto simp add: bit_simps dest: bit_imp_le_length)
  ultimately show ?thesis
    using assms by (simp add: is16_def)
qed

lemma loadRegs_storeRegs: "regs16 st \<Longrightarrow> loadRegs (storeRegs st) = st"
  by (cases st) (simp add: regs16_def loadRegs_def storeRegs_def byteAt_def reg_load_store)

lemma byte_lo: "ucast (ucast (a::byte) OR push_bit 8 (ucast (b::byte)) :: i32) = a"
  by (rule bit_word_eqI) (auto simp add: bit_simps dest: bit_imp_le_length)

lemma byte_hi: "ucast (signed_drop_bit 8 (ucast (a::byte) OR push_bit 8 (ucast (b::byte)) :: i32)) = b"
  by (rule bit_word_eqI) (auto simp add: bit_simps dest: bit_imp_le_length)

lemma list8:
  assumes "length blk = 8"
  shows "\<exists>a0 a1 a2 a3 a4 a5 a6 a7. blk = [a0, a1, a2, a3, a4, a5, a6, a7]"
proof -
  from assms have "length blk = 4 + 4" by simp
  from list_split4 [OF this] obtain a0 a1 a2 a3 r where 1: "blk = a0 # a1 # a2 # a3 # r" "length r = 4" by blast
  from list4 [OF 1(2)] obtain a4 a5 a6 a7 where "r = [a4, a5, a6, a7]" by blast
  with 1(1) show ?thesis by blast
qed

lemma storeRegs_loadRegs:
  assumes "length blk = 8"
  shows "storeRegs (loadRegs blk) = blk"
proof -
  obtain a0 a1 a2 a3 a4 a5 a6 a7 where blk: "blk = [a0, a1, a2, a3, a4, a5, a6, a7]"
    using list8 [OF assms] by blast
  show ?thesis
    by (simp add: blk loadRegs_def storeRegs_def byteAt_def byte_lo byte_hi)
qed

lemma macGuffin_roundtrip:
  assumes "length blk = 8"
  shows "fst (macGuffin_decryptBlock tb cipher (fst (macGuffin_encryptBlock tb cipher blk key)) key) = blk"
proof -
  let ?st = "foldl (encGroup tb (stableTable cipher) (val key)) (loadRegs blk) [0..<macGuffin_NUM_ROUNDS div 4]"
  have "regs16 ?st"
    by (rule regs16_foldl_encGroup) (rule regs16_loadRegs)
  then have "loadRegs (storeRegs ?st) = ?st"
    by (rule loadRegs_storeRegs)
  then show ?thesis
    by (simp add: macGuffin_decryptBlock_def macGuffin_encryptBlock_def
        foldl_undo [of "decGroup tb (stableTable cipher) (val key)" "encGroup tb (stableTable cipher) (val key)",
                    OF decGroup_encGroup]
        storeRegs_loadRegs [OF assms])
qed

lemma length_storeRegs: "length (storeRegs st) = 8"
  by (cases st) (simp add: storeRegs_def)

section \<open>Cipher B: generateRoundKeys is the bootstrap fold, and the engine leaves the key as it is\<close>

lemma littleEndian16_or:
  "littleEndian16 a b = ucast a OR push_bit 8 (ucast b)"
proof -
  have disj: "(ucast a :: u16) AND push_bit 8 (ucast b) = 0"
    by (rule bit_word_eqI) (auto simp add: bit_simps dest: bit_imp_le_length)
  have "littleEndian16 a b = ucast a + push_bit 8 (ucast b)"
    by (simp add: littleEndian16_def push_bit_eq_mult)
  also have "\<dots> = ucast a OR push_bit 8 (ucast b)"
    by (rule disjunctive_add_eq_or) (rule disj)
  finally show ?thesis .
qed

lemma store_xor_word:
  "(ucast ((ucast (x :: u16) :: i32) XOR (ucast (a :: byte) OR push_bit 8 (ucast (b :: byte)))) :: u16)
     = x XOR littleEndian16 a b"
  unfolding littleEndian16_or
  by (rule bit_word_eqI) (auto simp add: bit_simps dest: bit_imp_le_length)

lemma length_val_xorInto [simp]: "length (val (xorInto ek n k m)) = length (val ek)"
  by (simp add: xorInto_def)

lemma xorInto_three:
  assumes "length half = 8"
  shows "val (xorInto (xorInto (xorInto ek (j * 3) half 0) (j * 3 + 1) half 2) (j * 3 + 2) half 4)
           = xorThreeWords (val ek) j half"
proof (rule nth_equalityI)
  show "length (val (xorInto (xorInto (xorInto ek (j * 3) half 0) (j * 3 + 1) half 2) (j * 3 + 2) half 4))
          = length (xorThreeWords (val ek) j half)"
    by (simp add: xorThreeWords_def)
next
  fix n
  assume "n < length (val (xorInto (xorInto (xorInto ek (j * 3) half 0) (j * 3 + 1) half 2) (j * 3 + 2) half 4))"
  then have n: "n < length (val ek)" by simp
  show "val (xorInto (xorInto (xorInto ek (j * 3) half 0) (j * 3 + 1) half 2) (j * 3 + 2) half 4) ! n
          = xorThreeWords (val ek) j half ! n"
    using n assms
    by (simp add: xorInto_def xorThreeWords_def nth_list_update u16At_def byteAt_def
        store_xor_word mult.commute)
qed

lemma length_fst_macGuffin_encryptBlock:
  "length (fst (macGuffin_encryptBlock tb cipher blk key)) = 8"
  by (simp add: macGuffin_encryptBlock_def Let_def length_storeRegs)

lemma snd_macGuffin_encryptBlock: "snd (macGuffin_encryptBlock tb cipher blk key) = key"
  by (simp add: macGuffin_encryptBlock_def Let_def)

lemma snd_macGuffin_decryptBlock: "snd (macGuffin_decryptBlock tb cipher blk key) = key"
  by (simp add: macGuffin_decryptBlock_def Let_def)

lemma bootstrapStep_eq:
  "(let (ki', ek0) = macGuffin_encryptBlock tb cipher ki ek;
        ek1 = xorInto ek0 (j * 3) ki' 0;
        ek2 = xorInto ek1 (j * 3 + 1) ki' 2;
        ek3 = xorInto ek2 (j * 3 + 2) ki' 4
    in (ki', val ek3)) = bootstrapStep tb cipher (ki, val ek) j"
proof -
  obtain out key' where e: "macGuffin_encryptBlock tb cipher ki ek = (out, key')"
    by (cases "macGuffin_encryptBlock tb cipher ki ek")
  have key': "key' = ek"
    using snd_macGuffin_encryptBlock [of tb cipher ki ek] e by simp
  have len: "length out = 8"
    using length_fst_macGuffin_encryptBlock [of tb cipher ki ek] e by simp
  have same: "fst (macGuffin_encryptBlock tb cipher ki \<lparr>val = val ek\<rparr>) = out"
    using e by (auto simp add: macGuffin_encryptBlock_def Let_def)
  show ?thesis
    using xorInto_three [OF len, of ek j]
    by (simp add: e key' bootstrapStep_def Let_def same)
qed

lemma keyInnerLoop_foldl:
  "(case keyInnerLoop tb cipher j (ki, ek) of (ki', ek') \<Rightarrow> (ki', val ek'))
     = foldl (bootstrapStep tb cipher) (ki, val ek) [j..<32]"
proof (induction tb cipher j "(ki, ek)" arbitrary: ki ek rule: keyInnerLoop.induct)
  case (1 tb cipher j ki ek)
  show ?case
  proof (cases "j < 32")
    case True
    then have upt: "[j..<32] = j # [j + 1..<32]"
      by (simp add: upt_conv_Cons)
    obtain out key' where e: "macGuffin_encryptBlock tb cipher ki ek = (out, key')"
      by (cases "macGuffin_encryptBlock tb cipher ki ek")
    let ?ek3 = "xorInto (xorInto (xorInto key' (j * 3) out 0) (j * 3 + 1) out 2) (j * 3 + 2) out 4"
    have step: "bootstrapStep tb cipher (ki, val ek) j = (out, val ?ek3)"
      using bootstrapStep_eq [of tb cipher ki ek j] e by (simp add: Let_def)
    have "(case keyInnerLoop tb cipher (j + 1) (out, ?ek3) of (ki', ek') \<Rightarrow> (ki', val ek'))
            = foldl (bootstrapStep tb cipher) (out, val ?ek3) [j + 1..<32]"
      by (rule "1.hyps" [OF True e [symmetric] refl refl refl refl])
    then show ?thesis
      using True
      by (subst keyInnerLoop.simps) (simp add: upt e step Let_def)
  next
    case False
    then show ?thesis
      by (subst keyInnerLoop.simps) simp
  qed
qed

lemma val_snd_keyInnerLoop:
  "val (snd (keyInnerLoop tb cipher 0 (ki, ek))) = bootstrapHalf tb cipher (val ek) ki"
proof -
  obtain ki' ek' where k: "keyInnerLoop tb cipher 0 (ki, ek) = (ki', ek')"
    by (cases "keyInnerLoop tb cipher 0 (ki, ek)")
  with keyInnerLoop_foldl [of tb cipher 0 ki ek]
  have "foldl (bootstrapStep tb cipher) (ki, val ek) [0..<32] = (ki', val ek')"
    by simp
  then show ?thesis
    by (simp add: bootstrapHalf_def k)
qed

lemma keyOuterLoop_two:
  "keyOuterLoop tb cipher 0 ([k0, k1], ek) =
     (let (h0, ek0) = keyInnerLoop tb cipher 0 (k0, ek);
          (h1, ek1) = keyInnerLoop tb cipher 0 (k1, ek0)
      in ([h0, h1], ek1))"
  apply (subst keyOuterLoop.simps)
  apply (simp add: Let_def split: prod.splits)
  apply (subst keyOuterLoop.simps)
  apply (simp add: Let_def split: prod.splits)
  apply (subst keyOuterLoop.simps)
  apply (simp add: Let_def split: prod.splits)
  done

lemma generateRoundKeys_fold:
  "val (generateRoundKeys tb cipher masterKey) = bootstrapFold tb cipher masterKey"
proof -
  let ?k0 = "take 8 masterKey" and ?k1 = "take 8 (drop 8 masterKey)"
  let ?ek = "\<lparr>val = replicate 96 0\<rparr> :: MacGuffinKey"
  have "generateRoundKeys tb cipher masterKey
          = snd (keyInnerLoop tb cipher 0 (?k1, snd (keyInnerLoop tb cipher 0 (?k0, ?ek))))"
    by (simp add: generateRoundKeys_def keyOuterLoop_two KSIZE_def Let_def split: prod.splits)
  then show ?thesis
    by (simp add: val_snd_keyInnerLoop bootstrapFold_def)
qed

lemma length_xorThreeWords [simp]: "length (xorThreeWords table j half) = length table"
  by (simp add: xorThreeWords_def)

lemma length_bootstrapStep: "length (snd (bootstrapStep tb cipher st j)) = length (snd st)"
  by (simp add: bootstrapStep_def Let_def)

lemma length_foldl_bootstrapStep:
  "length (snd (foldl (bootstrapStep tb cipher) st xs)) = length (snd st)"
  by (induction xs arbitrary: st) (simp_all add: length_bootstrapStep)

lemma length_bootstrapFold: "length (bootstrapFold tb cipher masterKey) = 96"
  by (simp add: bootstrapFold_def bootstrapHalf_def length_foldl_bootstrapStep)

lemma snd_runBlockOps: "snd (runBlockOps tb cipher key ops) = key"
proof (induction ops)
  case Nil
  show ?case by simp
next
  case (Cons oper rest)
  have first: "snd (case oper of
                      EncryptBlock blk \<Rightarrow> macGuffin_encryptBlock tb cipher blk key
                    | DecryptBlock blk \<Rightarrow> macGuffin_decryptBlock tb cipher blk key) = key"
    by (cases oper) (simp_all add: snd_macGuffin_encryptBlock snd_macGuffin_decryptBlock)
  then show ?case
    using Cons.IH by (simp add: Let_def split: prod.splits) (metis snd_conv)
qed

section \<open>Padding\<close>

lemma all_from_le:
  fixes j p :: nat
  assumes "j \<le> p"
  shows "(\<forall>i. j \<le> i \<and> i \<le> p \<longrightarrow> P i) \<longleftrightarrow> P j \<and> (\<forall>i. Suc j \<le> i \<and> i \<le> p \<longrightarrow> P i)"
proof
  assume a: "\<forall>i. j \<le> i \<and> i \<le> p \<longrightarrow> P i"
  then show "P j \<and> (\<forall>i. Suc j \<le> i \<and> i \<le> p \<longrightarrow> P i)"
    using assms by auto
next
  assume b: "P j \<and> (\<forall>i. Suc j \<le> i \<and> i \<le> p \<longrightarrow> P i)"
  show "\<forall>i. j \<le> i \<and> i \<le> p \<longrightarrow> P i"
  proof (intro allI impI)
    fix i assume i: "j \<le> i \<and> i \<le> p"
    show "P i"
    proof (cases "i = j")
      case True then show ?thesis using b by simp
    next
      case False
      then have "Suc j \<le> i" using i by simp
      then show ?thesis using b i by simp
    qed
  qed
qed

lemma all_from_less:
  fixes j p :: nat
  assumes "j < p"
  shows "(\<forall>i. j \<le> i \<and> i < p \<longrightarrow> P i) \<longleftrightarrow> P j \<and> (\<forall>i. Suc j \<le> i \<and> i < p \<longrightarrow> P i)"
proof
  assume a: "\<forall>i. j \<le> i \<and> i < p \<longrightarrow> P i"
  then show "P j \<and> (\<forall>i. Suc j \<le> i \<and> i < p \<longrightarrow> P i)"
    using assms by auto
next
  assume b: "P j \<and> (\<forall>i. Suc j \<le> i \<and> i < p \<longrightarrow> P i)"
  show "\<forall>i. j \<le> i \<and> i < p \<longrightarrow> P i"
  proof (intro allI impI)
    fix i assume i: "j \<le> i \<and> i < p"
    show "P i"
    proof (cases "i = j")
      case True then show ?thesis using b by simp
    next
      case False
      then have "Suc j \<le> i" using i by simp
      then show ?thesis using b i by simp
    qed
  qed
qed

lemma pkcs7Check_iff:
  "pkcs7Check data p j \<longleftrightarrow> (\<forall>i. j \<le> i \<and> i \<le> p \<longrightarrow> unat (data ! (length data - i)) = p)"
proof (induction data p j rule: pkcs7Check.induct)
  case (1 data p j)
  show ?case
  proof (cases "j \<le> p")
    case True
    show ?thesis
    proof (cases "unat (data ! (length data - j)) = p")
      case eq: True
      show ?thesis
        using True eq "1.IH"
        by (subst pkcs7Check.simps, subst all_from_le [OF True]) simp
    next
      case False
      then show ?thesis
        using True by (subst pkcs7Check.simps) auto
    qed
  next
    case False
    then show ?thesis
      by (subst pkcs7Check.simps) auto
  qed
qed

lemma ansiCheck_iff:
  "ansiCheck data p j \<longleftrightarrow> (\<forall>i. j \<le> i \<and> i < p \<longrightarrow> data ! (length data - 1 - i) = 0)"
proof (induction data p j rule: ansiCheck.induct)
  case (1 data p j)
  show ?case
  proof (cases "j < p")
    case True
    show ?thesis
    proof (cases "data ! (length data - 1 - j) = 0")
      case eq: True
      show ?thesis
        using True eq "1.IH"
        by (subst ansiCheck.simps, subst all_from_less [OF True]) simp
    next
      case False
      then show ?thesis
        using True by (subst ansiCheck.simps) auto
    qed
  next
    case False
    then show ?thesis
      by (subst ansiCheck.simps) auto
  qed
qed

lemma getBlockSizeBytes_cases: "getBlockSizeBytes fam = 16 \<or> getBlockSizeBytes fam = 8"
  by (cases fam)
     (simp_all add: getBlockSizeBytes_def CipherContext_getBlockSizeBytes_def
        macGuffin_CipherContext_getBlockSizeBytes_def FeistelBlockCipher_getBlockSizeBytes_def
        HALF_BLOCK_SIZE_BYTES_def BLOCK_SIZE_BYTES_def MacGuffinCipher_getBlockSizeBytes_def
        FFunction_getBlockSizeBytes_def macGuffin_HALF_BLOCK_SIZE_BYTES_def
        macGuffin_BLOCK_SIZE_BYTES_def)

lemma getBlockSizeBytes_pos: "0 < getBlockSizeBytes fam"
  using getBlockSizeBytes_cases [of fam] by auto

lemma getBlockSizeBytes_le: "getBlockSizeBytes fam \<le> 16"
  using getBlockSizeBytes_cases [of fam] by auto

lemma padLen_pos: "0 < padLen fam data"
  using getBlockSizeBytes_pos [of fam] by (simp add: padLen_def)

lemma padLen_le: "padLen fam data \<le> getBlockSizeBytes fam"
  by (simp add: padLen_def)

lemma padLen_aligned: "(length data + padLen fam data) mod getBlockSizeBytes fam = 0"
proof -
  let ?b = "getBlockSizeBytes fam"
  have "length data mod ?b < ?b" using getBlockSizeBytes_pos by simp
  then have "length data + padLen fam data = length data - length data mod ?b + ?b"
    by (simp add: padLen_def)
  also have "\<dots> mod ?b = 0"
    by (simp add: minus_mod_eq_mult_div)
  finally show ?thesis .
qed

lemma unat_padLen: "unat (of_nat (padLen fam data) :: byte) = padLen fam data"
proof -
  have "padLen fam data \<le> 16"
    using padLen_le [of fam data] getBlockSizeBytes_le [of fam] by simp
  then show ?thesis
    by (simp add: unat_of_nat)
qed

lemma fill_append:
  "fill v (length data) (length data + p) (data @ replicate p z) = data @ replicate p v"
  by (rule nth_equalityI) (auto simp add: fill_def nth_append)

lemma fill_append_butlast:
  "fill z (length data) (length data + p - Suc 0) (data @ replicate p z) = data @ replicate p z"
  by (rule nth_equalityI) (auto simp add: fill_def nth_append)

lemma addPadding_unfold:
  "addPadding fam pad rnd data =
     (let p = padLen fam data; paddedData = data @ replicate p 0
      in case pad of
           Zeros \<Rightarrow> paddedData
         | ANSIX923 \<Rightarrow> (fill 0 (length data) (length paddedData - 1) paddedData)
                          [length paddedData - 1 := of_nat p]
         | PKCS7 \<Rightarrow> fill (of_nat p) (length data) (length paddedData) paddedData
         | ISO10126 \<Rightarrow>
             (foldl (\<lambda>arr i. arr[i := rnd i]) paddedData [length data..<length paddedData - 1])
               [length paddedData - 1 := of_nat p])"
proof -
  have "padLen fam data \<noteq> 0" using padLen_pos [of fam data] by simp
  then show ?thesis
    unfolding addPadding_def padLen_def [symmetric] Let_def by (simp only: if_False)
qed

lemma addPadding_PKCS7:
  "addPadding fam PKCS7 rnd data = data @ replicate (padLen fam data) (of_nat (padLen fam data))"
  by (simp add: addPadding_unfold Let_def fill_append)

lemma update_last_replicate:
  "(data @ replicate (Suc m) z)[length data + m := v] = data @ replicate m z @ [v]"
proof -
  have "replicate (Suc m) z = replicate m z @ [z]"
    by (simp add: replicate_append_same)
  then have "(data @ replicate (Suc m) z)[length data + m := v]
             = ((data @ replicate m z) @ z # [])[length (data @ replicate m z) := v]"
    by simp
  also have "\<dots> = (data @ replicate m z) @ v # []"
    by (rule list_update_length)
  finally show ?thesis by simp
qed

lemma addPadding_ANSIX923:
  "addPadding fam ANSIX923 rnd data =
     data @ replicate (padLen fam data - 1) 0 @ [of_nat (padLen fam data)]"
proof -
  let ?p = "padLen fam data"
  have p: "0 < ?p" by (rule padLen_pos)
  then obtain m where m: "?p = Suc m" by (cases ?p) auto
  show ?thesis
    unfolding addPadding_unfold Let_def m
    using update_last_replicate [of data m 0 "of_nat (Suc m)"] fill_append_butlast [of 0 data "Suc m"]
    by simp
qed

lemma removePadding_addPadding_PKCS7:
  "removePadding fam PKCS7 (addPadding fam PKCS7 rnd data) = Inr data"
proof -
  let ?p = "padLen fam data"
  let ?v = "of_nat ?p :: byte"
  let ?xs = "data @ replicate ?p ?v"
  have p: "0 < ?p" "?p \<le> getBlockSizeBytes fam"
    by (rule padLen_pos, rule padLen_le)
  have len: "length ?xs mod getBlockSizeBytes fam = 0"
    using padLen_aligned [of data fam] by simp
  have ne: "?xs \<noteq> []" using p by auto
  have last: "?xs ! (length data + ?p - Suc 0) = ?v"
    using p by (auto simp add: nth_append)
  have chk: "pkcs7Check ?xs ?p 1"
    unfolding pkcs7Check_iff using p by (auto simp add: nth_append unat_padLen)
  show ?thesis
    unfolding addPadding_PKCS7 removePadding_def Let_def
    using len ne p chk by (simp add: last unat_padLen del: replicate_eq_replicate)
qed

lemma removePadding_addPadding_ANSIX923:
  "removePadding fam ANSIX923 (addPadding fam ANSIX923 rnd data) = Inr data"
proof -
  let ?p = "padLen fam data"
  let ?v = "of_nat ?p :: byte"
  let ?xs = "data @ replicate (?p - 1) 0 @ [?v]"
  have p: "0 < ?p" "?p \<le> getBlockSizeBytes fam"
    by (rule padLen_pos, rule padLen_le)
  have l: "length ?xs = length data + ?p" using p by simp
  have len: "length ?xs mod getBlockSizeBytes fam = 0"
    using padLen_aligned [of data fam] l by simp
  have last: "?xs ! (length ?xs - 1) = ?v"
    by (simp add: nth_append)
  have chk: "ansiCheck ?xs ?p 1"
    unfolding ansiCheck_iff using p by (auto simp add: nth_append)
  have "removePadding fam ANSIX923 ?xs = Inr (take (length ?xs - ?p) ?xs)"
    unfolding removePadding_def Let_def
    using len p chk by (simp only: last unat_padLen) (simp add: l)
  also have "take (length ?xs - ?p) ?xs = data"
    unfolding l by simp
  finally show ?thesis
    unfolding addPadding_ANSIX923 .
qed

section \<open>Values of h at the zero key\<close>

lemma h_0_zero4_q:
  "q 0 Q0 = 41"
  "q 0 Q1 = 181"
  "q 2 Q0 = 89"
  "q 37 Q0 = 84"
  "q 41 Q0 = 157"
  "q 66 Q1 = 202"
  "q 84 Q1 = 145"
  "q 89 Q0 = 80"
  "q 95 Q0 = 55"
  "q 157 Q0 = 66"
  "q 179 Q1 = 95"
  "q 181 Q0 = 247"
  "q 181 Q1 = 236"
  "q 202 Q1 = 8"
  "q 236 Q0 = 37"
  "q 236 Q1 = 2"
  "q 247 Q1 = 179"
  by (simp_all add: q_def Q0_def Q1_def wordAt_def)

lemma h_0_zero4_gf:
  "multiplyGF 1 8 = 8"
  "multiplyGF 1 55 = 55"
  "multiplyGF 1 80 = 80"
  "multiplyGF 1 145 = 145"
  "multiplyGF 91 8 = 10"
  "multiplyGF 91 55 = 212"
  "multiplyGF 91 80 = 68"
  "multiplyGF 91 145 = 239"
  "multiplyGF 239 8 = 14"
  "multiplyGF 239 55 = 123"
  "multiplyGF 239 80 = 108"
  "multiplyGF 239 145 = 19"
  by (simp_all add: multiplyGF_def multiplyGF_loop.simps RS_POLY_def word_sless_alt)

lemma h_0_zero4_mds: "mdsMultiply 2437941303 = 599401625"
  by (simp add: mdsMultiply_def mdsRow_def MDS_MATRIX_def h_0_zero4_gf)

lemma h_0_zero4: "h 0 [0, 0, 0, 0] = 599401625"
  by (simp add: h_def Let_def wordAt_def h_0_zero4_q h_0_zero4_mds)

lemma h_1_zero4_q:
  "q 0 Q0 = 41"
  "q 0 Q1 = 181"
  "q 1 Q1 = 45"
  "q 2 Q0 = 89"
  "q 16 Q0 = 125"
  "q 37 Q0 = 84"
  "q 41 Q0 = 157"
  "q 45 Q0 = 139"
  "q 66 Q1 = 202"
  "q 84 Q1 = 145"
  "q 89 Q0 = 80"
  "q 139 Q1 = 198"
  "q 157 Q0 = 66"
  "q 181 Q1 = 236"
  "q 198 Q1 = 16"
  "q 202 Q1 = 8"
  "q 236 Q0 = 37"
  "q 236 Q1 = 2"
  by (simp_all add: q_def Q0_def Q1_def wordAt_def)

lemma h_1_zero4_gf:
  "multiplyGF 1 8 = 8"
  "multiplyGF 1 80 = 80"
  "multiplyGF 1 125 = 125"
  "multiplyGF 1 145 = 145"
  "multiplyGF 91 8 = 10"
  "multiplyGF 91 80 = 68"
  "multiplyGF 91 125 = 56"
  "multiplyGF 91 145 = 239"
  "multiplyGF 239 8 = 14"
  "multiplyGF 239 80 = 108"
  "multiplyGF 239 125 = 178"
  "multiplyGF 239 145 = 19"
  by (simp_all add: multiplyGF_def multiplyGF_loop.simps RS_POLY_def word_sless_alt)

lemma h_1_zero4_mds: "mdsMultiply 2437941373 = 3488673141"
  by (simp add: mdsMultiply_def mdsRow_def MDS_MATRIX_def h_1_zero4_gf)

lemma h_1_zero4: "h 1 [0, 0, 0, 0] = 3488673141"
  by (simp add: h_def Let_def wordAt_def h_1_zero4_q h_1_zero4_mds)

lemma h_0_zero2_q:
  "q 0 Q0 = 41"
  "q 0 Q1 = 181"
  "q 41 Q0 = 157"
  "q 41 Q1 = 77"
  "q 77 Q1 = 110"
  "q 157 Q1 = 86"
  "q 181 Q0 = 247"
  "q 181 Q1 = 236"
  "q 236 Q0 = 37"
  "q 247 Q0 = 150"
  by (simp_all add: q_def Q0_def Q1_def wordAt_def)

lemma h_0_zero2_gf:
  "multiplyGF 1 37 = 37"
  "multiplyGF 1 86 = 86"
  "multiplyGF 1 110 = 110"
  "multiplyGF 1 150 = 150"
  "multiplyGF 91 37 = 118"
  "multiplyGF 91 86 = 247"
  "multiplyGF 91 110 = 193"
  "multiplyGF 91 150 = 7"
  "multiplyGF 239 37 = 208"
  "multiplyGF 239 86 = 220"
  "multiplyGF 239 110 = 246"
  "multiplyGF 239 150 = 76"
  by (simp_all add: multiplyGF_def multiplyGF_loop.simps RS_POLY_def word_sless_alt)

lemma h_0_zero2_mds: "mdsMultiply 1452699173 = 2909300170"
  by (simp add: mdsMultiply_def mdsRow_def MDS_MATRIX_def h_0_zero2_gf)

lemma h_0_zero2: "h 0 [0, 0] = 2909300170"
  by (simp add: h_def Let_def wordAt_def h_0_zero2_q h_0_zero2_mds)

section \<open>The twoFish context\<close>

lemma KeyExpansion_new_ok:
  "length masterKey mod 8 = 0 \<Longrightarrow> KeyExpansion_new masterKey = Inr (expansionOf masterKey)"
  by (simp add: KeyExpansion_new_def expansionOf_def Let_def)

lemma key_length_mod8: "length masterKey \<in> set MASTER_KEY_SIZE_BYTES \<Longrightarrow> length masterKey mod 8 = 0"
  by (auto simp add: MASTER_KEY_SIZE_BYTES_def)

lemma setMasterKey_ok:
  assumes "length masterKey \<in> set MASTER_KEY_SIZE_BYTES"
  shows "setMasterKey ctx masterKey =
     Inr (ctx\<lparr>ctxBlockCipher := Some \<lparr>cipherKeyExpansion = expansionOf masterKey, cipherNumRounds = 16\<rparr>,
              ctxKeyExpansion := expansionOf masterKey, ctxMasterKey := Some masterKey\<rparr>)"
  using assms
  by (simp add: setMasterKey_def KeyExpansion_new_ok [OF key_length_mod8 [OF assms]] seqE_def
      FeistelBlockCipher_new_def NUM_ROUNDS_def)

lemma length_encryptBlock: "encryptBlock cipher blk rk = Inr ct \<Longrightarrow> length ct = 16"
  by (auto simp add: encryptBlock_def length_packBlock split: option.splits if_splits)

lemma blockCipher_getBlockSizeBytes_fails: "blockCipher_getBlockSizeBytes bc = Inl NotImplemented"
  by (simp add: blockCipher_getBlockSizeBytes_def IBlockCipher_getBlockSizeBytes_def split: option.splits)

lemma ctrBranch_short:
  assumes "length blk \<le> 32"
  shows "\<exists>e. ctrBranch ctx rk bytes blk n = Inl e"
proof (cases "ctrCounter n bytes blk")
  case (Inl e)
  then show ?thesis by (simp add: ctrBranch_def seqE_def)
next
  case cb: (Inr counterBlock)
  show ?thesis
  proof (cases "blockCipher_encryptBlock (ctxBlockCipher ctx) counterBlock rk")
    case (Inl e)
    then show ?thesis by (simp add: ctrBranch_def seqE_def cb)
  next
    case (Inr streamCTR)
    then have "length streamCTR = 16"
      by (auto simp add: blockCipher_encryptBlock_def length_encryptBlock split: option.splits)
    then have "xorBytes (drop 32 blk) streamCTR = Inl XorLengthMismatch"
      using assms by (simp add: xorBytes_def)
    then show ?thesis by (simp add: ctrBranch_def seqE_def cb Inr)
  qed
qed

lemma decrypt_NotImplemented:
  assumes "roundKeys (ctxKeyExpansion ctx) = Some rk" and "blk \<noteq> []"
  shows "decrypt ctx blk = Inl NotImplemented"
  using assms by (simp add: decrypt_def Let_def blockCipher_getBlockSizeBytes_fails seqE_def)

lemma encrypt_CTR_NotImplemented:
  assumes "roundKeys (ctxKeyExpansion ctx) = Some rk" and "blk \<noteq> []"
    and "ctxMode ctx = CTR" and "ctxIv ctx = Some bytes"
  shows "encrypt ctx blk = Inl NotImplemented"
  using assms by (simp add: encrypt_def Let_def blockCipher_getBlockSizeBytes_fails seqE_def)

lemma encrypt_CTR_fails:
  assumes "ctxMode ctx = CTR"
  shows "\<exists>e. encrypt ctx blk = Inl e"
  using assms
  by (auto simp add: encrypt_def Let_def blockCipher_getBlockSizeBytes_fails seqE_def split: option.splits)

lemma decrypt_fails: "\<exists>e. decrypt ctx blk = Inl e"
  by (auto simp add: decrypt_def Let_def blockCipher_getBlockSizeBytes_fails seqE_def split: option.splits)

lemma encrypt_ECB:
  assumes "roundKeys (ctxKeyExpansion ctx) = Some rk" and "blk \<noteq> []" and "ctxMode ctx = ECB"
    and "ctxBlockCipher ctx = Some cipher"
  shows "encrypt ctx blk = seqE (encryptBlock cipher blk rk) (\<lambda>e. Inr (Some e, ctx))"
  using assms by (simp add: encrypt_def Let_def blockCipher_encryptBlock_def)

lemma encrypt_missing_iv:
  assumes "roundKeys (ctxKeyExpansion ctx) = Some rk" and "blk \<noteq> []" and "ctxIv ctx = None"
    and "ctxMode ctx \<in> {CBC, PCBC, CFB, OFB, CTR}"
  shows "encrypt ctx blk = Inl MissingIv"
  using assms by (auto simp add: encrypt_def Let_def)

lemma encrypt_ECB_ignores_iv:
  assumes "ctxMode ctx = ECB"
  shows "map_sum id fst (encrypt (ctx\<lparr>ctxIv := v\<rparr>) blk) = map_sum id fst (encrypt ctx blk)"
  using assms
  by (cases "blockCipher_encryptBlock (ctxBlockCipher ctx) blk (the (roundKeys (ctxKeyExpansion ctx)))")
     (auto simp add: encrypt_def Let_def seqE_def split: option.splits)

lemma setIv_error_iff:
  "setIv ctx (Some bytes) = Inl InvalidIvLength \<longleftrightarrow> length bytes \<noteq> 8"
  by (simp add: setIv_def macGuffin_BLOCK_SIZE_BYTES_def)

lemma exampleCtrContext_setters:
  "seqE (setMasterKey CipherContext_new zeroKey) (\<lambda>c. setIv (setMode c CTR) (Some (replicate 8 0)))
   = Inr exampleCtrContext"
proof -
  have "length zeroKey \<in> set MASTER_KEY_SIZE_BYTES"
    by (simp add: zeroKey_def MASTER_KEY_SIZE_BYTES_def)
  then show ?thesis
    by (simp add: setMasterKey_ok seqE_def setMode_def setIv_def macGuffin_BLOCK_SIZE_BYTES_def
        exampleCtrContext_def CipherContext_new_def)
qed

lemma length_concat_pairs: "length (concat (map (\<lambda>i. [f i, g i]) [0..<n])) = 2 * n"
  by (induction n) simp_all

lemma concat_pairs_nth:
  "i < n \<Longrightarrow> concat (map (\<lambda>i. [f i, g i]) [0..<n]) ! (2 * i) = f i \<and>
              concat (map (\<lambda>i. [f i, g i]) [0..<n]) ! (2 * i + 1) = g i"
proof (induction n)
  case 0
  then show ?case by simp
next
  case (Suc n)
  show ?case
  proof (cases "i < n")
    case True
    then show ?thesis
      using Suc.IH by (simp add: nth_append length_concat_pairs)
  next
    case False
    with Suc.prems have "i = n" by simp
    then show ?thesis
      by (simp add: nth_append length_concat_pairs)
  qed
qed

lemma length_generateRoundKeysInternal: "length (generateRoundKeysInternal M) = 40"
  by (simp add: generateRoundKeysInternal_def Let_def length_concat_pairs)

lemma generateRoundKeysInternal_nth:
  assumes "i < 20"
  shows "generateRoundKeysInternal M ! (2 * i) =
           fst (PHT (sint (h (wordAt M (2 * i)) M)) (sint (h (wordAt M (2 * i + 1)) M)))"
    and "generateRoundKeysInternal M ! (2 * i + 1) =
           snd (PHT (sint (h (wordAt M (2 * i)) M)) (sint (h (wordAt M (2 * i + 1)) M)))"
  using concat_pairs_nth [OF assms,
      of "\<lambda>i. fst (PHT (sint (h (wordAt M (2 * i)) M)) (sint (h (wordAt M (2 * i + 1)) M)))"
         "\<lambda>i. snd (PHT (sint (h (wordAt M (2 * i)) M)) (sint (h (wordAt M (2 * i + 1)) M)))"]
  by (simp_all add: generateRoundKeysInternal_def Let_def)

lemma length_makeM: "length (makeM masterKey) = 2 * (length masterKey div 8)"
  by (simp add: makeM_def length_concat_pairs)

lemma generateRoundKeysInternal_beyond:
  assumes "i < 20" and "length M \<le> 2 * i"
  shows "generateRoundKeysInternal M ! (2 * i) = fst (PHT (sint (h 0 M)) (sint (h 0 M)))"
    and "generateRoundKeysInternal M ! (2 * i + 1) = snd (PHT (sint (h 0 M)) (sint (h 0 M)))"
  using assms generateRoundKeysInternal_nth [OF assms(1), of M]
  by (simp_all add: wordAt_def)

lemma round_keys_repeat_128:
  assumes "length masterKey = 16" and "2 \<le> i" and "i < 20"
  shows "generateRoundKeysInternal (makeM masterKey) ! (2 * i)
           = generateRoundKeysInternal (makeM masterKey) ! 4"
    and "generateRoundKeysInternal (makeM masterKey) ! (2 * i + 1)
           = generateRoundKeysInternal (makeM masterKey) ! 5"
proof -
  have l: "length (makeM masterKey) = 4"
    using assms(1) by (simp add: length_makeM)
  have i: "length (makeM masterKey) \<le> 2 * i" using l assms(2) by simp
  have 2: "length (makeM masterKey) \<le> 2 * 2" "(2::nat) < 20" using l by simp_all
  show "generateRoundKeysInternal (makeM masterKey) ! (2 * i)
           = generateRoundKeysInternal (makeM masterKey) ! 4"
    using generateRoundKeysInternal_beyond(1) [OF assms(3) i]
      generateRoundKeysInternal_beyond(1) [OF 2(2) 2(1)] by simp
  show "generateRoundKeysInternal (makeM masterKey) ! (2 * i + 1)
           = generateRoundKeysInternal (makeM masterKey) ! 5"
    using generateRoundKeysInternal_beyond(2) [OF assms(3) i]
      generateRoundKeysInternal_beyond(2) [OF 2(2) 2(1)] by simp
qed

lemma upt_0_2: "[0..<2] = [0, 1]"
  by (simp add: numeral_2_eq_2)

lemma makeM_zeroKey: "makeM zeroKey = [0, 0, 0, 0]"
  by (simp add: makeM_def zeroKey_def upt_0_2 le32_def byteAt_def)

lemma multiplyGF_0: "multiplyGF a 0 = 0"
  by (simp add: multiplyGF_def multiplyGF_loop.simps)

lemma byteAt_replicate_0: "byteAt (replicate n 0) i = 0"
  by (simp add: byteAt_def)

lemma foldl_xor_zero: "foldl (\<lambda>sum col. sum XOR multiplyGF (g col) 0) 0 xs = 0"
  by (induction xs) (simp_all add: multiplyGF_0)

lemma rsRow_zero: "rsRow (replicate n 0) row = 0"
  by (simp add: rsRow_def byteAt_replicate_0 foldl_xor_zero)

lemma makeS_zeroKey: "makeS zeroKey = [0, 0]"
  by (simp add: makeS_def zeroKey_def upt_0_2 rsWord_def rsRow_zero Let_def)

lemma generateSBoxesInternal_nth:
  assumes "i < 4" and "j < 256"
  shows "generateSBoxesInternal S ! i ! j = h (of_nat j) S"
  using assms by (simp add: generateSBoxesInternal_def)

lemma length_generateSBoxesInternal_nth:
  assumes "i < 4"
  shows "length (generateSBoxesInternal S ! i) = 256"
  using assms by (simp add: generateSBoxesInternal_def)

lemma length_generateSBoxesInternal: "length (generateSBoxesInternal S) = 4"
  by (simp add: generateSBoxesInternal_def)

lemma seqE_assoc: "seqE m (\<lambda>c. seqE (f c) g) = seqE (seqE m f) g"
  by (cases m) (simp_all add: seqE_def)

lemma setMasterKey_zeroKey:
  "setMasterKey CipherContext_new zeroKey =
     Inr (CipherContext_new\<lparr>ctxBlockCipher := Some \<lparr>cipherKeyExpansion = expansionOf zeroKey, cipherNumRounds = 16\<rparr>,
              ctxKeyExpansion := expansionOf zeroKey, ctxMasterKey := Some zeroKey\<rparr>)"
  by (rule setMasterKey_ok) (simp add: zeroKey_def MASTER_KEY_SIZE_BYTES_def)

lemma carryLoop_done: "carry \<le> 0 \<Longrightarrow> carryLoop n carry counterBlock = counterBlock"
  by (cases n) simp_all

lemma small_sum_no_carry: "sint (signed_drop_bit 8 (ucast (v :: byte) :: i32)) = 0"
proof -
  have "signed_drop_bit 8 (ucast v :: i32) = 0"
    by (rule bit_word_eqI) (auto simp add: bit_simps dest: bit_imp_le_length)
  then show ?thesis by simp
qed

lemma getUint32_example: "getUint32 (0 # 0 # 0 # v # rest) = Inr (uint v)"
  by (simp add: getUint32_def)

lemma counterSet_example: "counterSet 16 (replicate 8 0) = Inr (replicate 16 0)"
proof -
  have "replicate 8 (0::byte) @ replicate 8 0 = replicate 16 0"
    by (simp add: replicate_add [symmetric])
  then show ?thesis by (simp add: counterSet_def)
qed

lemma carryLoop_example:
  assumes "0 < uint v"
  shows "carryLoop 16 (uint v) (replicate 16 0) = (replicate 16 0)[15 := v]"
proof -
  have "carryLoop (Suc 15) (uint v) (replicate 16 0)
        = carryLoop 15 (sint (signed_drop_bit 8 (word_of_int (uint (replicate 16 (0::byte) ! 15) + uint v) :: i32)))
            ((replicate 16 0)[15 := word_of_int (uint (replicate 16 (0::byte) ! 15) + uint v)])"
    using assms by (simp only: carryLoop.simps Let_def if_True)
  also have "\<dots> = carryLoop 15 0 ((replicate 16 0)[15 := v])"
    by (simp add: small_sum_no_carry)
  also have "\<dots> = (replicate 16 0)[15 := v]"
    by (rule carryLoop_done) simp
  finally show ?thesis by simp
qed

lemma ctrCounter_example:
  assumes "0 < uint v"
  shows "ctrCounter 16 (replicate 8 0) ([0, 0, 0, v] @ replicate 44 0) = Inr ((replicate 16 0)[15 := v])"
  by (simp add: ctrCounter_def counterSet_example getUint32_example seqE_def carryLoop_example [OF assms])

section \<open>Cipher A: decrypt of the session after encrypt\<close>

lemma session_decrypt_of_encrypt:
  assumes "length masterKey \<in> set MASTER_KEY_SIZE_BYTES" and "length blk = 16"
  shows "\<exists>ctx cipher rk ct.
           setMasterKey CipherContext_new masterKey = Inr ctx \<and> ctxMode ctx = ECB \<and>
           ctxBlockCipher ctx = Some cipher \<and> roundKeys (ctxKeyExpansion ctx) = Some rk \<and>
           encrypt ctx blk = Inr (Some ct, ctx) \<and> length ct = 16 \<and>
           decryptBlock cipher ct rk = Inr blk \<and>
           decrypt ctx ct = Inl NotImplemented"
proof -
  let ?ke = "expansionOf masterKey"
  let ?cipher = "\<lparr>cipherKeyExpansion = ?ke, cipherNumRounds = 16\<rparr>"
  let ?rk = "generateRoundKeysInternal (makeM masterKey)"
  let ?ctx = "CipherContext_new\<lparr>ctxBlockCipher := Some ?cipher, ctxKeyExpansion := ?ke,
                ctxMasterKey := Some masterKey\<rparr>"
  have set: "setMasterKey CipherContext_new masterKey = Inr ?ctx"
    using assms(1) by (simp add: setMasterKey_ok)
  have sb: "sBoxes (cipherKeyExpansion ?cipher) = Some (generateSBoxesInternal (makeS masterKey))"
    and rk: "roundKeys (cipherKeyExpansion ?cipher) = Some ?rk"
    by (simp_all add: expansionOf_def)
  have four: "4 \<le> length (generateSBoxesInternal (makeS masterKey))"
    by (simp add: length_generateSBoxesInternal)
  from decryptBlock_encryptBlock [OF sb rk assms(2) four, of ?rk]
  obtain ct where ct: "encryptBlock ?cipher blk ?rk = Inr ct" "length ct = 16"
    "decryptBlock ?cipher ct ?rk = Inr blk"
    by blast
  have ne: "blk \<noteq> []" using assms(2) by auto
  have ne': "ct \<noteq> []" using ct(2) by auto
  have mode: "ctxMode ?ctx = ECB" by (simp add: CipherContext_new_def)
  have bc: "ctxBlockCipher ?ctx = Some ?cipher" by simp
  have rk': "roundKeys (ctxKeyExpansion ?ctx) = Some ?rk" by (simp add: expansionOf_def)
  have enc: "encrypt ?ctx blk = Inr (Some ct, ?ctx)"
    using encrypt_ECB [OF rk' ne mode bc] ct(1) by (simp add: seqE_def)
  have dec: "decrypt ?ctx ct = Inl NotImplemented"
    by (rule decrypt_NotImplemented [OF rk' ne'])
  from set mode bc rk' enc ct(2,3) dec show ?thesis
    by blast
qed

section \<open>The claims\<close>

text \<open>
  Claim C1, in the Cipher A context keyed with the zero key, in ECB mode (the mode of a
  new context). \<open>encrypt\<close> of the block of 16 zero bytes returns a 16-byte ciphertext
  and leaves the context as it is, and the engine's \<open>decryptBlock\<close> maps that
  ciphertext back to the block under the round keys of the context; but \<open>decrypt\<close> of
  the context on that ciphertext ends in the error of the unimplemented
  \<open>getBlockSizeBytes\<close> of \<open>IBlockCipher\<close>: \<open>decrypt(encrypt(block))\<close> is not the block.
  Lemma \<open>session_decrypt_of_encrypt\<close> has the same for every key of 16, 24 or 32 bytes
  and every 16-byte block. For Cipher B, whose session class is not among the sources,
  lemma \<open>macGuffin_roundtrip\<close> has the round trip of the block engine.
\<close>

theorem ecb_session_decrypt_of_encrypt_throws:
  "\<exists>ctx cipher rk ct.
     setMasterKey CipherContext_new zeroKey = Inr ctx \<and> ctxMode ctx = ECB \<and>
     ctxBlockCipher ctx = Some cipher \<and> roundKeys (ctxKeyExpansion ctx) = Some rk \<and>
     encrypt ctx (replicate 16 0) = Inr (Some ct, ctx) \<and> length ct = 16 \<and>
     decryptBlock cipher ct rk = Inr (replicate 16 0) \<and>
     decrypt ctx ct = Inl NotImplemented"
  by (rule session_decrypt_of_encrypt) (simp_all add: zeroKey_def MASTER_KEY_SIZE_BYTES_def)

text \<open>
  Claim C2, at the key of sixteen zero bytes. The schedule has 40 entries, but entry 0
  is the first component of \<open>PHT(h(M[0], M), h(M[1], M))\<close>, which is 1198803250,
  whereas the first component of \<open>PHT(h(0, M), h(1, M))\<close> is -206892530: the argument
  of \<open>h\<close> is an element of \<open>M\<close>, not the index.
\<close>

theorem round_keys_use_key_words_not_indices:
  "length (generateRoundKeysInternal (makeM zeroKey)) = 40 \<and>
   generateRoundKeysInternal (makeM zeroKey) ! 0 = 1198803250 \<and>
   fst (PHT (sint (h 0 (makeM zeroKey))) (sint (h 1 (makeM zeroKey)))) = - 206892530"
proof -
  have a: "generateRoundKeysInternal (makeM zeroKey) ! 0 = 1198803250"
    using generateRoundKeysInternal_nth(1) [of 0 "makeM zeroKey"]
    by (simp add: makeM_zeroKey wordAt_def h_0_zero4 PHT_def js_rem_def)
  have b: "fst (PHT (sint (h 0 (makeM zeroKey))) (sint (h 1 (makeM zeroKey)))) = - 206892530"
    by (simp add: makeM_zeroKey h_0_zero4 h_1_zero4 PHT_def js_rem_def)
  show ?thesis
    using a b by (simp add: length_generateRoundKeysInternal)
qed

text \<open>
  Claim C3, in a Cipher A context. The block size of Cipher A is 16 bytes, yet
  \<open>setIv\<close> rejects every 16-byte vector with the invalid-length error and stores an
  8-byte one: the length is compared with the block size of Cipher B, whatever the
  context.
\<close>

theorem setIv_compares_with_macGuffin_block_size:
  "getBlockSizeBytes CipherA = 16 \<and>
   setIv ctx (Some (replicate 16 0)) = Inl InvalidIvLength \<and>
   setIv ctx (Some (replicate 8 0)) = Inr (ctx\<lparr>ctxIv := Some (replicate 8 0)\<rparr>)"
  by (simp add: setIv_def macGuffin_BLOCK_SIZE_BYTES_def getBlockSizeBytes_def
      CipherContext_getBlockSizeBytes_def FeistelBlockCipher_getBlockSizeBytes_def HALF_BLOCK_SIZE_BYTES_def BLOCK_SIZE_BYTES_def)

text \<open>
  Claim C4, in the Cipher A context keyed with the zero key, in CTR mode, with the IV of
  eight zero bytes. The counter block the CTR branch computes is the IV plus the first
  four bytes of the data read as a big-endian number: two messages that differ in
  these bytes get the counters ending in 5 and in 9, and nothing is stored between two
  calls. On this input \<open>encrypt\<close> stops before the counter, at the call of the
  unimplemented \<open>getBlockSizeBytes\<close> on the engine instance.
\<close>

theorem ctr_counter_is_iv_plus_message_bytes:
  "ctrCounter 16 (replicate 8 0) ([0, 0, 0, 5] @ replicate 44 0) = Inr ((replicate 16 0)[15 := 5]) \<and>
   ctrCounter 16 (replicate 8 0) ([0, 0, 0, 9] @ replicate 44 0) = Inr ((replicate 16 0)[15 := 9]) \<and>
   seqE (setMasterKey CipherContext_new zeroKey) (\<lambda>c.
     seqE (setIv (setMode c CTR) (Some (replicate 8 0))) (\<lambda>c'.
       encrypt c' ([0, 0, 0, 5] @ replicate 44 0))) = Inl NotImplemented"
proof -
  have rk: "roundKeys (ctxKeyExpansion exampleCtrContext) = Some (generateRoundKeysInternal (makeM zeroKey))"
    and m: "ctxMode exampleCtrContext = CTR" and i: "ctxIv exampleCtrContext = Some (replicate 8 0)"
    by (simp_all add: exampleCtrContext_def expansionOf_def)
  have ne: "[0, 0, 0, 5 :: byte] @ replicate 44 0 \<noteq> []" by simp
  have "encrypt exampleCtrContext ([0, 0, 0, 5] @ replicate 44 0) = Inl NotImplemented"
    by (rule encrypt_CTR_NotImplemented [OF rk ne m i])
  then have e: "seqE (setMasterKey CipherContext_new zeroKey) (\<lambda>c.
     seqE (setIv (setMode c CTR) (Some (replicate 8 0))) (\<lambda>c'.
       encrypt c' ([0, 0, 0, 5] @ replicate 44 0))) = Inl NotImplemented"
    unfolding seqE_assoc exampleCtrContext_setters by (simp add: seqE_def)
  have "0 < uint (5 :: byte)" "0 < uint (9 :: byte)" by simp_all
  then show ?thesis
    using e ctrCounter_example [of 5] ctrCounter_example [of 9] by simp
qed

text \<open>
  Claim C5. In CTR mode, with round keys and an IV set, \<open>encrypt\<close> and \<open>decrypt\<close> of
  an input of at most 32 bytes end in an error and return no block. The third part is
  the mechanism the claim names, for any size \<open>n\<close> of the counter block: the rest of
  the branch XORs what \<open>slice(32)\<close> leaves of the input, nothing, with a keystream
  block, which \<open>xorBytes\<close> refuses.
\<close>

theorem ctr_single_block_always_throws:
  assumes "roundKeys (ctxKeyExpansion ctx) = Some rk"
    and "ctxMode ctx = CTR"
    and "ctxIv ctx = Some bytes"
    and "length blk \<le> 32"
  shows "(\<exists>e. encrypt ctx blk = Inl e) \<and> (\<exists>e. decrypt ctx blk = Inl e) \<and>
         (\<exists>e. ctrBranch ctx rk bytes blk n = Inl e)"
  using assms encrypt_CTR_fails [of ctx blk] decrypt_fails [of ctx blk] ctrBranch_short [of blk ctx rk bytes n]
  by simp

theorem ctr_single_block_always_throws_witness:
  "roundKeys (ctxKeyExpansion exampleCtrContext) = Some (generateRoundKeysInternal (makeM zeroKey)) \<and>
   ctxMode exampleCtrContext = CTR \<and>
   ctxIv exampleCtrContext = Some (replicate 8 0) \<and>
   length (replicate 16 0 :: byte list) \<le> 32 \<and>
   (\<exists>e. encrypt exampleCtrContext (replicate 16 0) = Inl e) \<and>
   (\<exists>e. decrypt exampleCtrContext (replicate 16 0) = Inl e) \<and>
   (\<exists>e. ctrBranch exampleCtrContext (generateRoundKeysInternal (makeM zeroKey)) (replicate 8 0)
          (replicate 16 0) 16 = Inl e)"
proof -
  have 1: "roundKeys (ctxKeyExpansion exampleCtrContext) = Some (generateRoundKeysInternal (makeM zeroKey))"
    by (simp add: exampleCtrContext_def expansionOf_def)
  have 2: "ctxMode exampleCtrContext = CTR" by (simp add: exampleCtrContext_def)
  have 3: "ctxIv exampleCtrContext = Some (replicate 8 0)" by (simp add: exampleCtrContext_def)
  have 4: "length (replicate 16 0 :: byte list) \<le> 32" by simp
  from ctr_single_block_always_throws [OF 1 2 3 4, of 16] 1 2 3 4
  show ?thesis by (intro conjI) simp_all
qed

text \<open>
  Claim C6, in the Cipher A context keyed with the zero key and no IV. \<open>decrypt\<close> of a
  16-byte block ends in the error of the unimplemented \<open>getBlockSizeBytes\<close> of
  \<open>IBlockCipher\<close>, in ECB mode, where the claim has it succeed, and in CBC mode, where the
  claim has it raise the missing-IV error.
\<close>

theorem decrypt_calls_unimplemented_block_size:
  "seqE (setMasterKey CipherContext_new zeroKey) (\<lambda>c. decrypt c (replicate 16 0)) = Inl NotImplemented \<and>
   seqE (setMasterKey CipherContext_new zeroKey) (\<lambda>c. decrypt (setMode c CBC) (replicate 16 0))
     = Inl NotImplemented"
proof -
  let ?c = "CipherContext_new\<lparr>ctxBlockCipher := Some \<lparr>cipherKeyExpansion = expansionOf zeroKey, cipherNumRounds = 16\<rparr>,
              ctxKeyExpansion := expansionOf zeroKey, ctxMasterKey := Some zeroKey\<rparr>"
  have rk: "roundKeys (ctxKeyExpansion ?c) = Some (generateRoundKeysInternal (makeM zeroKey))"
    "roundKeys (ctxKeyExpansion (setMode ?c CBC)) = Some (generateRoundKeysInternal (makeM zeroKey))"
    by (simp_all add: expansionOf_def setMode_def)
  have ne: "replicate 16 (0::byte) \<noteq> []" by simp
  have "decrypt ?c (replicate 16 0) = Inl NotImplemented"
    by (rule decrypt_NotImplemented [OF rk(1) ne])
  moreover have "decrypt (setMode ?c CBC) (replicate 16 0) = Inl NotImplemented"
    by (rule decrypt_NotImplemented [OF rk(2) ne])
  ultimately show ?thesis
    by (simp add: setMasterKey_zeroKey seqE_def)
qed

text \<open>
  Claim C7. For PKCS7 and for ANSIX923, for both cipher families and a message of any
  length (so also of every length from 0 to twice the block size), removing the
  padding from the padded message returns the message.
\<close>

theorem padding_roundtrip:
  "removePadding fam PKCS7 (addPadding fam PKCS7 rnd data) = Inr data \<and>
   removePadding fam ANSIX923 (addPadding fam ANSIX923 rnd data) = Inr data"
  by (simp add: removePadding_addPadding_PKCS7 removePadding_addPadding_ANSIX923)

text \<open>
  Claim C8. Under PKCS7, on a non-empty buffer of a multiple of the block size,
  \<open>_removePadding\<close> raises the padding-validation error when the last byte, the
  declared pad length, is 0 or exceeds the block size, and when one of the declared
  pad bytes (the last \<open>p\<close> bytes, \<open>p\<close> the last byte) differs from it.
\<close>

theorem pkcs7_rejects_bad_padding:
  assumes "data \<noteq> []" and "length data mod getBlockSizeBytes fam = 0"
    and "unat (last data) = 0 \<or> unat (last data) > getBlockSizeBytes fam \<or>
         (\<exists>j. 1 \<le> j \<and> j \<le> unat (last data) \<and> data ! (length data - j) \<noteq> last data)"
  shows "removePadding fam PKCS7 data = Inl PaddingValidationFailed"
proof -
  let ?p = "unat (last data)"
  have last: "data ! (length data - Suc 0) = last data"
    using assms(1) by (simp add: last_conv_nth)
  show ?thesis
  proof (cases "?p > getBlockSizeBytes fam \<or> ?p = 0")
    case True
    then show ?thesis
      using assms(1,2) by (simp add: removePadding_def Let_def last)
  next
    case False
    with assms(3) obtain j where j: "1 \<le> j" "j \<le> ?p" "data ! (length data - j) \<noteq> last data"
      by auto
    then have "unat (data ! (length data - j)) \<noteq> ?p"
      by (simp add: word_unat_eq_iff)
    with j have "\<not> pkcs7Check data ?p 1"
      unfolding pkcs7Check_iff by blast
    then show ?thesis
      using assms(1,2) False by (simp add: removePadding_def Let_def last)
  qed
qed

theorem pkcs7_rejects_bad_padding_witness:
  "[1, 2, 3, 4, 5, 6, 7, 9 :: byte] \<noteq> [] \<and>
   length [1, 2, 3, 4, 5, 6, 7, 9 :: byte] mod getBlockSizeBytes CipherB = 0 \<and>
   unat (last [1, 2, 3, 4, 5, 6, 7, 9 :: byte]) > getBlockSizeBytes CipherB \<and>
   removePadding CipherB PKCS7 [1, 2, 3, 4, 5, 6, 7, 9] = Inl PaddingValidationFailed \<and>
   [1, 2, 3, 4, 5, 6, 3, 2 :: byte] ! (length [1, 2, 3, 4, 5, 6, 3, 2 :: byte] - 2)
     \<noteq> last [1, 2, 3, 4, 5, 6, 3, 2 :: byte] \<and>
   removePadding CipherB PKCS7 [1, 2, 3, 4, 5, 6, 3, 2] = Inl PaddingValidationFailed"
proof -
  have b: "getBlockSizeBytes CipherB = 8"
    by (simp add: getBlockSizeBytes_def macGuffin_CipherContext_getBlockSizeBytes_def
        MacGuffinCipher_getBlockSizeBytes_def
        FFunction_getBlockSizeBytes_def macGuffin_HALF_BLOCK_SIZE_BYTES_def macGuffin_BLOCK_SIZE_BYTES_def)
  have 1: "[1, 2, 3, 4, 5, 6, 7, 9 :: byte] \<noteq> []" by simp
  have 2: "length [1, 2, 3, 4, 5, 6, 7, 9 :: byte] mod getBlockSizeBytes CipherB = 0" by (simp add: b)
  have 3: "unat (last [1, 2, 3, 4, 5, 6, 7, 9 :: byte]) > getBlockSizeBytes CipherB" by (simp add: b)
  have r1: "removePadding CipherB PKCS7 [1, 2, 3, 4, 5, 6, 7, 9] = Inl PaddingValidationFailed"
    by (rule pkcs7_rejects_bad_padding [OF 1 2]) (rule disjI2, rule disjI1, rule 3)
  have 4: "[1, 2, 3, 4, 5, 6, 3, 2 :: byte] \<noteq> []" by simp
  have 5: "length [1, 2, 3, 4, 5, 6, 3, 2 :: byte] mod getBlockSizeBytes CipherB = 0" by (simp add: b)
  have 6: "[1, 2, 3, 4, 5, 6, 3, 2 :: byte] ! (length [1, 2, 3, 4, 5, 6, 3, 2 :: byte] - 2)
     \<noteq> last [1, 2, 3, 4, 5, 6, 3, 2 :: byte]" by simp
  have 7: "\<exists>j. 1 \<le> j \<and> j \<le> unat (last [1, 2, 3, 4, 5, 6, 3, 2 :: byte]) \<and>
     [1, 2, 3, 4, 5, 6, 3, 2 :: byte] ! (length [1, 2, 3, 4, 5, 6, 3, 2 :: byte] - j)
       \<noteq> last [1, 2, 3, 4, 5, 6, 3, 2 :: byte]"
    by (rule exI [of _ 2]) simp
  have r2: "removePadding CipherB PKCS7 [1, 2, 3, 4, 5, 6, 3, 2] = Inl PaddingValidationFailed"
    by (rule pkcs7_rejects_bad_padding [OF 4 5]) (rule disjI2, rule disjI2, rule 7)
  from 1 2 3 r1 6 r2 show ?thesis by (intro conjI)
qed

text \<open>
  Claim C9. For every master key (so for every 16-byte one), every engine and all
  tables of masks: the table in the key object \<open>generateRoundKeys\<close> builds with its two
  nested loops and its updates \<open>ek.val[n] ^= k[m] | (k[m + 1] << 8)\<close> is \<open>bootstrapFold\<close>,
  the fold in the words of the spec: from 96 zero words, for each of the two 8-byte
  halves of the key, 32 times replace the half by its encryption under the current
  table, and XOR the numbers \<open>b0 + 256 * b1\<close>, \<open>b2 + 256 * b3\<close>, \<open>b4 + 256 * b5\<close> of
  bytes 0..5 of the result into entries 3j, 3j+1, 3j+2, every other entry unchanged. The
  table has 96 entries. It is never mutated afterwards: after any sequence of
  \<open>encryptBlock\<close> and \<open>decryptBlock\<close> calls of any engine on the finished key object,
  the object is the one \<open>generateRoundKeys\<close> returned. The last two conjuncts are one
  update of the source and one step of the fold on numbers: bytes \<open>0x34, 0x12\<close> are the
  word \<open>0x1234\<close>, and it is XORed into the entry.
\<close>

theorem macGuffin_schedule_is_bootstrap_fold:
  "val (generateRoundKeys tb cipher masterKey) = bootstrapFold tb cipher masterKey \<and>
   length (val (generateRoundKeys tb cipher masterKey)) = 96 \<and>
   snd (runBlockOps tb engine (generateRoundKeys tb cipher masterKey) ops)
     = generateRoundKeys tb cipher masterKey \<and>
   val (xorInto \<lparr>val = [1, 2, 3]\<rparr> 1 [0x34, 0x12] 0) = [1, 0x1236, 3] \<and>
   xorThreeWords [1, 2, 3, 4] 0 [0x34, 0x12, 0, 1, 0xFF, 0xFF, 9, 9] = [0x1235, 0x0102, 0xFFFC, 4]"
proof (intro conjI)
  show "val (generateRoundKeys tb cipher masterKey) = bootstrapFold tb cipher masterKey"
    by (rule generateRoundKeys_fold)
  then show "length (val (generateRoundKeys tb cipher masterKey)) = 96"
    by (simp add: length_bootstrapFold)
  show "snd (runBlockOps tb engine (generateRoundKeys tb cipher masterKey) ops)
          = generateRoundKeys tb cipher masterKey"
    by (rule snd_runBlockOps)
  show "val (xorInto \<lparr>val = [1, 2, 3]\<rparr> 1 [0x34, 0x12] 0) = [1, 0x1236, 3]"
    by (simp add: xorInto_def u16At_def byteAt_def)
  show "xorThreeWords [1, 2, 3, 4] 0 [0x34, 0x12, 0, 1, 0xFF, 0xFF, 9, 9] = [0x1235, 0x0102, 0xFFFC, 4]"
    by (simp add: xorThreeWords_def littleEndian16_def upt_conv_Cons)
qed

text \<open>
  Claim C10. For every valid Cipher A key the constructor returns four tables of 256
  entries, and entry \<open>j\<close> of each table is \<open>h(j, S)\<close>, whatever the table index. An
  entry is a whole 32-bit word: at the zero key, entry 0 of table 0 is 2909300170.
\<close>

theorem sboxes_identical_full_words:
  "(length masterKey \<in> set MASTER_KEY_SIZE_BYTES \<longrightarrow>
      (\<exists>ke sb. KeyExpansion_new masterKey = Inr ke \<and> sBoxes ke = Some sb \<and> length sb = 4 \<and>
          (\<forall>i<4. length (sb ! i) = 256 \<and> (\<forall>j<256. sb ! i ! j = h (of_nat j) (vecS ke))))) \<and>
   generateSBoxesInternal (makeS zeroKey) ! 0 ! 0 = 2909300170"
proof (intro conjI impI)
  assume a: "length masterKey \<in> set MASTER_KEY_SIZE_BYTES"
  let ?sb = "generateSBoxesInternal (makeS masterKey)"
  have "KeyExpansion_new masterKey = Inr (expansionOf masterKey)"
    by (rule KeyExpansion_new_ok [OF key_length_mod8 [OF a]])
  moreover have "sBoxes (expansionOf masterKey) = Some ?sb"
    and "vecS (expansionOf masterKey) = makeS masterKey"
    by (simp_all add: expansionOf_def)
  moreover have "length ?sb = 4"
    by (rule length_generateSBoxesInternal)
  moreover have "\<forall>i<4. length (?sb ! i) = 256 \<and> (\<forall>j<256. ?sb ! i ! j = h (of_nat j) (makeS masterKey))"
    by (simp add: generateSBoxesInternal_nth length_generateSBoxesInternal_nth)
  ultimately show "\<exists>ke sb. KeyExpansion_new masterKey = Inr ke \<and> sBoxes ke = Some sb \<and> length sb = 4 \<and>
          (\<forall>i<4. length (sb ! i) = 256 \<and> (\<forall>j<256. sb ! i ! j = h (of_nat j) (vecS ke)))"
    by simp
next
  show "generateSBoxesInternal (makeS zeroKey) ! 0 ! 0 = 2909300170"
    using generateSBoxesInternal_nth [of 0 0 "makeS zeroKey"]
    by (simp add: makeS_zeroKey h_0_zero2)
qed

theorem sboxes_identical_full_words_witness:
  "length zeroKey \<in> set MASTER_KEY_SIZE_BYTES \<and>
   (\<exists>ke sb. KeyExpansion_new zeroKey = Inr ke \<and> sBoxes ke = Some sb \<and> length sb = 4 \<and>
      length (sb ! 2) = 256 \<and> sb ! 2 ! 5 = h 5 (vecS ke) \<and> sb ! 3 ! 5 = sb ! 0 ! 5)"
proof -
  have k: "length zeroKey \<in> set MASTER_KEY_SIZE_BYTES"
    by (simp add: zeroKey_def MASTER_KEY_SIZE_BYTES_def)
  from sboxes_identical_full_words [of zeroKey] k
  obtain ke sb where s: "KeyExpansion_new zeroKey = Inr ke" "sBoxes ke = Some sb" "length sb = 4"
    "\<forall>i<4. length (sb ! i) = 256 \<and> (\<forall>j<256. sb ! i ! j = h (of_nat j) (vecS ke))"
    by blast
  from s(4) have "length (sb ! 2) = 256" by simp
  moreover from s(4) have "\<forall>j<256. sb ! 2 ! j = h (of_nat j) (vecS ke)" by simp
  then have "sb ! 2 ! 5 = h (of_nat 5) (vecS ke)" by simp
  moreover from s(4) have "\<forall>j<256. sb ! 3 ! j = h (of_nat j) (vecS ke)" by simp
  then have "sb ! 3 ! 5 = h (of_nat 5) (vecS ke)" by simp
  moreover from s(4) have "\<forall>j<256. sb ! 0 ! j = h (of_nat j) (vecS ke)" by simp
  then have "sb ! 0 ! 5 = h (of_nat 5) (vecS ke)" by simp
  ultimately show ?thesis
    using k s(1,2,3) by simp
qed

end
